theory Spec2Isabelle
  imports Main "HOL-Library.Multiset" "HOL-Library.Char_ord" "HOL-Library.List_Lexorder"
    "HOL-Library.Word" "HOL-Library.Sublist"
begin

section \<open>The note repository of tn_improved.py\<close>

text \<open>
  The repository keeps its notes in one SQLite table,
  \<^verbatim>\<open>notes(id INTEGER PRIMARY KEY AUTOINCREMENT, title, body, created_at, updated_at, import_hash)\<close>.
  The table is modelled by the list of its rows in rowid order, together with the counter
  that SQLite keeps for an AUTOINCREMENT key (the largest rowid the table has ever held).

  Conventions of the embedding:
  \<^item> a Python \<^verbatim>\<open>str\<close> is a \<^typ>\<open>string\<close>; a \<^typ>\<open>char\<close> stands for the code point
    of the same number, so the texts covered are those over the code points 0 to 255;
  \<^item> a Python \<^verbatim>\<open>int\<close> is an \<^typ>\<open>int\<close>. SQLite's INTEGER has 64 bits, and the
    \<^verbatim>\<open>sqlite3\<close> module raises OverflowError for an argument outside them: \<open>upsert\<close>, which
    its callers may hand any id, has that branch. The rowids in the table, the ids given to
    \<open>get\<close> and the limits given to \<open>search\<close> are taken to be values SQLite can hold, as
    are all those the session passes (ids read from the table, the limit 500);
  \<^item> an exception is a value of the type \<open>error\<close>, and an operation that can raise returns
    \<open>Inl\<close> of it;
  \<^item> the clock read \<^verbatim>\<open>datetime.now(timezone.utc).isoformat(timespec="seconds")\<close> is an
    input \<open>now\<close> of the operation that reads it;
  \<^item> \<^verbatim>\<open>hashlib.sha256(bytes).hexdigest()\<close> is a function of the standard library; it is the
    parameter \<open>sha256\<close> of every operation that hashes, so that what is proved holds for
    every digest function;
  \<^item> failures of the storage layer itself (a closed or corrupted database) are outside the model.
\<close>

subsection \<open>The bytes that are hashed\<close>

text \<open>
  \<^verbatim>\<open>str.encode('utf-8')\<close> on code points below 256: one byte below 128, two bytes from 128 on.
\<close>

definition utf8_char :: "char \<Rightarrow> 8 word list" where
  "utf8_char c =
     (let n = of_char c :: nat
      in if n < 128 then [of_nat n]
         else [of_nat (192 + n div 64), of_nat (128 + n mod 64)])"

definition utf8_encode :: "string \<Rightarrow> 8 word list" where
  "utf8_encode s = concat (map utf8_char s)"

subsection \<open>The table and its operations\<close>

record note_row =
  note_id :: int
  title :: string
  body :: string
  created_at :: string
  updated_at :: string
  import_hash :: "string option"

record store =
  rows :: "note_row list"
  sqlite_sequence :: int

text \<open>The table that \<^verbatim>\<open>CREATE TABLE IF NOT EXISTS\<close> makes in a new database file.\<close>

definition empty_store :: store where
  "empty_store = \<lparr>rows = [], sqlite_sequence = 0\<rparr>"

text \<open>\<^verbatim>\<open>SELECT COUNT(*) FROM notes\<close>\<close>

definition count_notes :: "store \<Rightarrow> int" where
  "count_notes st = int (length (rows st))"

definition ids_of :: "store \<Rightarrow> int set" where
  "ids_of st = note_id ` set (rows st)"

text \<open>
  The rowid an AUTOINCREMENT insert chooses: one more than the largest rowid that is or
  ever was in the table.
\<close>

definition next_rowid :: "store \<Rightarrow> int" where
  "next_rowid st = fold max (map note_id (rows st)) (sqlite_sequence st) + 1"

text \<open>\<^verbatim>\<open>_compute_hash\<close>: \<^verbatim>\<open>content = f"{title}||{body}"\<close>, then the digest of its UTF-8 encoding.\<close>

definition hash_content :: "string \<Rightarrow> string \<Rightarrow> string" where
  "hash_content t b = t @ ''||'' @ b"

definition compute_hash :: "(8 word list \<Rightarrow> string) \<Rightarrow> string \<Rightarrow> string \<Rightarrow> string" where
  "compute_hash sha256 t b = sha256 (utf8_encode (hash_content t b))"

text \<open>
  \<^verbatim>\<open>SELECT COUNT(*) FROM notes WHERE import_hash = ?\<close>, compared with 0.
  A NULL \<open>import_hash\<close> equals nothing.
\<close>

definition note_exists_by_hash :: "string \<Rightarrow> store \<Rightarrow> bool" where
  "note_exists_by_hash h st = (length (filter (\<lambda>n. import_hash n = Some h) (rows st)) > 0)"

text \<open>
  The exceptions of the model: what the file system raises (\<^verbatim>\<open>OSError\<close>), what the
  \<^verbatim>\<open>sqlite3\<close> module raises for an integer argument that does not fit SQLite's INTEGER
  (\<^verbatim>\<open>OverflowError\<close>), and what it raises when SQLite refuses a statement
  (\<^verbatim>\<open>sqlite3.OperationalError\<close>).
\<close>

datatype error = OSError | OverflowError | OperationalError

definition sqlite_int :: "int \<Rightarrow> bool" where
  "sqlite_int i = (- (2 ^ 63) \<le> i \<and> i < 2 ^ 63)"

text \<open>
  \<open>upsert\<close>: without an id, an INSERT that stamps both timestamps with \<open>now\<close> and returns
  \<open>lastrowid\<close>; with an id, an UPDATE of every row \<open>WHERE id = ?\<close>, which returns the id it
  was given whether or not a row matched. The id is an argument of the UPDATE statement:
  outside the 64 bits of an INTEGER it makes \<^verbatim>\<open>execute\<close> raise before the statement runs.
\<close>

definition update_row :: "string \<Rightarrow> string \<Rightarrow> string \<Rightarrow> string option \<Rightarrow> int \<Rightarrow> note_row \<Rightarrow> note_row" where
  "update_row t b now h nid n =
     (if note_id n = nid
      then n\<lparr>title := t, body := b, updated_at := now, import_hash := h\<rparr>
      else n)"

definition upsert ::
  "string \<Rightarrow> string \<Rightarrow> string \<Rightarrow> int option \<Rightarrow> string option \<Rightarrow> store
     \<Rightarrow> error + (int \<times> store)" where
  "upsert now t b nid_opt h st =
     (case nid_opt of
        None \<Rightarrow>
          (let rowid = next_rowid st;
               n = \<lparr>note_id = rowid, title = t, body = b, created_at = now,
                    updated_at = now, import_hash = h\<rparr>
           in Inr (rowid, \<lparr>rows = rows st @ [n], sqlite_sequence = rowid\<rparr>))
      | Some nid \<Rightarrow>
          if sqlite_int nid
          then Inr (nid, st\<lparr>rows := map (update_row t b now h nid) (rows st)\<rparr>)
          else Inl OverflowError)"

text \<open>\<^verbatim>\<open>SELECT id, title, body, created_at, updated_at FROM notes WHERE id=?\<close>, first row or None.\<close>

definition get :: "int \<Rightarrow> store \<Rightarrow> (int \<times> string \<times> string \<times> string \<times> string) option" where
  "get nid st =
     (case find (\<lambda>n. note_id n = nid) (rows st) of
        None \<Rightarrow> None
      | Some n \<Rightarrow> Some (note_id n, title n, body n, created_at n, updated_at n))"

subsection \<open>Text functions of Python and of SQLite\<close>

text \<open>
  Python's \<^verbatim>\<open>str.isspace\<close>, \<^verbatim>\<open>str.isalnum\<close> and \<^verbatim>\<open>str.lower\<close> follow the Unicode tables;
  on the code points 0 to 255 these are the ranges below. SQLite's \<^verbatim>\<open>lower()\<close> folds the
  letters A to Z only.
\<close>

definition isspace :: "char \<Rightarrow> bool" where
  "isspace c =
     (let n = of_char c :: nat
      in (9 \<le> n \<and> n \<le> 13) \<or> (28 \<le> n \<and> n \<le> 32) \<or> n = 133 \<or> n = 160)"

definition isalnum :: "char \<Rightarrow> bool" where
  "isalnum c =
     (let n = of_char c :: nat
      in (48 \<le> n \<and> n \<le> 57) \<or> (65 \<le> n \<and> n \<le> 90) \<or> (97 \<le> n \<and> n \<le> 122)
         \<or> n = 170 \<or> n = 178 \<or> n = 179 \<or> n = 181 \<or> n = 185 \<or> n = 186
         \<or> (188 \<le> n \<and> n \<le> 190) \<or> (192 \<le> n \<and> n \<le> 214)
         \<or> (216 \<le> n \<and> n \<le> 246) \<or> (248 \<le> n \<and> n \<le> 255))"

definition strip :: "string \<Rightarrow> string" where
  "strip s = rev (dropWhile isspace (rev (dropWhile isspace s)))"

definition py_lower_char :: "char \<Rightarrow> char" where
  "py_lower_char c =
     (let n = of_char c :: nat
      in if (65 \<le> n \<and> n \<le> 90) \<or> (192 \<le> n \<and> n \<le> 214) \<or> (216 \<le> n \<and> n \<le> 222)
         then char_of (n + 32) else c)"

definition py_lower :: "string \<Rightarrow> string" where
  "py_lower s = map py_lower_char s"

definition sql_lower_char :: "char \<Rightarrow> char" where
  "sql_lower_char c =
     (let n = of_char c :: nat
      in if 65 \<le> n \<and> n \<le> 90 then char_of (n + 32) else c)"

definition sql_lower :: "string \<Rightarrow> string" where
  "sql_lower s = map sql_lower_char s"

text \<open>
  SQLite's \<^verbatim>\<open>text LIKE pattern\<close> with no ESCAPE clause: \<^verbatim>\<open>%\<close> stands for any run of
  characters, \<^verbatim>\<open>_\<close> for any one character, and every other pattern character matches
  itself, the letters A to Z and a to z without regard to case. LIKE reads its two operands
  as C strings: each ends at its first NUL character (\<open>c_string\<close>), whatever follows it.
\<close>

fun like :: "string \<Rightarrow> string \<Rightarrow> bool" where
  "like [] s = (s = [])"
| "like (p # ps) s =
     (if p = CHR ''%''
      then like ps s \<or> (case s of [] \<Rightarrow> False | _ # r \<Rightarrow> like (p # ps) r)
      else (case s of
              [] \<Rightarrow> False
            | c # r \<Rightarrow> (p = CHR ''_'' \<or> sql_lower_char p = sql_lower_char c) \<and> like ps r))"

definition c_string :: "string \<Rightarrow> string" where
  "c_string s = takeWhile (\<lambda>c. c \<noteq> CHR 0x00) s"

definition sql_like :: "string \<Rightarrow> string \<Rightarrow> bool" where
  "sql_like pattern s = like (c_string pattern) (c_string s)"

text \<open>Python's \<^verbatim>\<open>str(n)\<close> for an integer, and \<^verbatim>\<open>s.replace(" ", "-")\<close>.\<close>

fun str_nat :: "nat \<Rightarrow> string" where
  "str_nat n =
     (if n < 10 then [char_of (48 + n)]
      else str_nat (n div 10) @ [char_of (48 + n mod 10)])"

declare str_nat.simps [simp del]

definition str_int :: "int \<Rightarrow> string" where
  "str_int i = (if i < 0 then CHR ''-'' # str_nat (nat (- i)) else str_nat (nat i))"

definition replace_spaces :: "string \<Rightarrow> string" where
  "replace_spaces s = map (\<lambda>c. if c = CHR '' '' then CHR ''-'' else c) s"

subsection \<open>Search\<close>

text \<open>
  \<^verbatim>\<open>ORDER BY updated_at DESC\<close> compares the timestamps as text. SQL leaves the order of
  rows with equal timestamps open; the model keeps them in rowid order, which is the order
  of the index \<^verbatim>\<open>idx_updated\<close>. \<^verbatim>\<open>LIMIT ?\<close> with a negative value puts no bound on the
  number of rows.
\<close>

definition order_by_updated_desc :: "note_row list \<Rightarrow> note_row list" where
  "order_by_updated_desc ns = rev (sort_key updated_at (rev ns))"

definition sql_limit :: "int \<Rightarrow> 'a list \<Rightarrow> 'a list" where
  "sql_limit lim xs = (if lim < 0 then xs else take (nat lim) xs)"

definition snip :: "note_row \<Rightarrow> string" where
  "snip n = title n @ [CHR 0x0A] @ body n"

definition like_matches :: "string \<Rightarrow> note_row \<Rightarrow> bool" where
  "like_matches q n = (sql_like q (sql_lower (title n)) \<or> sql_like q (sql_lower (body n)))"

text \<open>
  SQLite refuses a LIKE pattern of more than 50000 bytes (its default
  \<^verbatim>\<open>SQLITE_MAX_LIKE_PATTERN_LENGTH\<close>), counting the whole of its UTF-8 encoding, with the
  error \<^verbatim>\<open>LIKE or GLOB pattern too complex\<close>. It does so when it evaluates the LIKE for a
  row, which happens as soon as the table has a row and the limit is not 0.
\<close>

definition like_pattern_limit :: int where
  "like_pattern_limit = 50000"

text \<open>
  The rows that the query of \<open>search\<close> selects, in the order and number it returns them:
  every row when \<^verbatim>\<open>text.strip()\<close> is empty, else the rows
  \<^verbatim>\<open>WHERE lower(title) LIKE ? OR lower(body) LIKE ?\<close> with both parameters
  \<^verbatim>\<open>"%" + text.lower() + "%"\<close>.
\<close>

definition search_rows :: "string \<Rightarrow> int \<Rightarrow> store \<Rightarrow> error + note_row list" where
  "search_rows text lim st =
     (if strip text = []
      then Inr (sql_limit lim (order_by_updated_desc (rows st)))
      else (let q = ''%'' @ py_lower text @ ''%''
            in if rows st \<noteq> [] \<and> lim \<noteq> 0 \<and> like_pattern_limit < int (length (utf8_encode q))
               then Inl OperationalError
               else Inr (sql_limit lim (order_by_updated_desc (filter (like_matches q) (rows st))))))"

definition search :: "string \<Rightarrow> int \<Rightarrow> store \<Rightarrow> error + (int \<times> string) list" where
  "search text lim st =
     (case search_rows text lim st of
        Inl e \<Rightarrow> Inl e
      | Inr ns \<Rightarrow> Inr (map (\<lambda>n. (note_id n, snip n)) ns))"

subsection \<open>What the specification says of a search result\<close>

text \<open>
  The words of the specification, as predicates on the rows returned: newest first; the
  most recently updated of the candidate rows (each returned row is a candidate, and no
  candidate left out is newer than a returned one); the number of rows a limit lets through;
  and a query that appears in a text as a literal substring, letters A to Z compared
  without regard to case. A query is plain when it has none of the characters that LIKE
  reads as wildcards.
\<close>

definition newest_first :: "note_row list \<Rightarrow> bool" where
  "newest_first ns = sorted_wrt (\<lambda>a b. updated_at b \<le> updated_at a) ns"

definition most_recent_of :: "note_row list \<Rightarrow> note_row list \<Rightarrow> bool" where
  "most_recent_of ys xs =
     (mset ys \<subseteq># mset xs
      \<and> (\<forall>m \<in># mset xs - mset ys. \<forall>n \<in> set ys. updated_at m \<le> updated_at n))"

definition limited_length :: "int \<Rightarrow> nat \<Rightarrow> nat" where
  "limited_length lim n = (if lim < 0 then n else min (nat lim) n)"

definition contains_nocase :: "string \<Rightarrow> string \<Rightarrow> bool" where
  "contains_nocase q s = sublist (sql_lower q) (sql_lower s)"

definition plain :: "string \<Rightarrow> bool" where
  "plain q = (CHR ''%'' \<notin> set q \<and> CHR ''_'' \<notin> set q)"

definition notes_containing :: "string \<Rightarrow> store \<Rightarrow> note_row list" where
  "notes_containing q st =
     filter (\<lambda>n. contains_nocase q (title n) \<or> contains_nocase q (body n)) (rows st)"

text \<open>\<^verbatim>\<open>all()\<close>: every note, \<^verbatim>\<open>ORDER BY updated_at DESC\<close>.\<close>

definition row_tuple :: "note_row \<Rightarrow> int \<times> string \<times> string \<times> string \<times> string" where
  "row_tuple n = (note_id n, title n, body n, created_at n, updated_at n)"

definition all_notes :: "store \<Rightarrow> (int \<times> string \<times> string \<times> string \<times> string) list" where
  "all_notes st = map row_tuple (order_by_updated_desc (rows st))"

subsection \<open>Export\<close>

text \<open>
  \<open>export_separate_files\<close> returns its counter \<open>n\<close>; the model returns with it the files
  written under \<open>dir_path\<close>, as (file name, text) in the order of writing. The rows exported
  are those of \<open>get\<close> for each requested id when \<open>note_ids\<close> is truthy (a non-empty list), and
  \<open>all()\<close> otherwise; ids for which \<open>get\<close> gives None are dropped.
\<close>

definition safe_name :: "int \<Rightarrow> string \<Rightarrow> string" where
  "safe_name nid t =
     (let s = take 50 (strip (filter (\<lambda>c. isalnum c \<or> c \<in> {CHR '' '', CHR ''-'', CHR ''_''}) t));
          safe = (if s = [] then ''note-'' @ str_int nid else s)
      in replace_spaces safe)"

definition export_file :: "int \<times> string \<times> string \<times> string \<times> string \<Rightarrow> string \<times> string" where
  "export_file r =
     (case r of (nid, t, b, created, updated) \<Rightarrow>
        (''note-'' @ str_int nid @ ''-'' @ safe_name nid t @ ''.md'',
         ''# '' @ t @ [CHR 0x0A, CHR 0x0A] @ ''_Created: '' @ created @ [CHR '' '', CHR 0xB7, CHR '' '']
           @ ''Updated: '' @ updated @ ''_'' @ [CHR 0x0A, CHR 0x0A] @ b))"

definition export_rows ::
  "int list option \<Rightarrow> store \<Rightarrow> (int \<times> string \<times> string \<times> string \<times> string) list" where
  "export_rows note_ids st =
     (let rs = (case note_ids of
                  None \<Rightarrow> map Some (all_notes st)
                | Some ids \<Rightarrow> if ids = [] then map Some (all_notes st)
                              else map (\<lambda>nid. get nid st) ids)
      in map the (filter (\<lambda>r. r \<noteq> None) rs))"

definition export_separate_files :: "int list option \<Rightarrow> store \<Rightarrow> int \<times> (string \<times> string) list" where
  "export_separate_files note_ids st =
     (let files = map export_file (export_rows note_ids st)
      in (int (length files), files))"






subsection \<open>Import\<close>

text \<open>
  The file system and the digest function are inputs of \<open>import_text_file\<close>: \<open>read_text p\<close> is the decoded text
  of the file at \<open>p\<close>, or None where \<^verbatim>\<open>path.read_text\<close> raises, and \<open>stem p\<close> is
  \<^verbatim>\<open>path.stem\<close>. The result is the triple the method returns, with the store after it.
\<close>

definition import_title :: "('p \<Rightarrow> string) \<Rightarrow> 'p \<Rightarrow> string" where
  "import_title stem p = (if stem p = [] then ''(untitled)'' else stem p)"

definition import_text_file ::
  "(8 word list \<Rightarrow> string) \<Rightarrow> string \<Rightarrow> ('p \<Rightarrow> string option) \<Rightarrow> ('p \<Rightarrow> string) \<Rightarrow> 'p
     \<Rightarrow> store \<Rightarrow> error + ((int \<times> int \<times> int option) \<times> store)" where
  "import_text_file sha256 now read_text stem p st =
     (case read_text p of
        None \<Rightarrow> Inl OSError
      | Some content \<Rightarrow>
          (let t = import_title stem p;
               h = compute_hash sha256 t content
           in if note_exists_by_hash h st then Inr ((0, 1, None), st)
              else (case upsert now t content None (Some h) st of
                      Inl e \<Rightarrow> Inl e
                    | Inr (nid, st') \<Rightarrow> Inr ((1, 0, Some nid), st'))))"

section \<open>The session: NotryApp\<close>

text \<open>
  The application object is a record of the attributes its handlers read and write,
  with the widgets reduced to the state the handlers use:
  \<^item> \<open>input_value\<close> is the value of the \<^verbatim>\<open>#search\<close> input;
  \<^item> \<open>editor_text\<close> is the text of the \<^verbatim>\<open>#editor\<close> TextArea, None when the TextArea
    widget is not available (\<^verbatim>\<open>_HAS_TEXTAREA\<close> false);
  \<^item> \<open>results_rows\<close> is the note id of each row of the \<^verbatim>\<open>#results\<close> list (what
    \<^verbatim>\<open>_id_to_note\<close> gives for each child) and \<open>results_index\<close> its cursor;
  \<^item> \<open>focused\<close> says which of the three widgets holds the input focus;
  \<^item> \<open>notifications\<close> collects the calls of \<^verbatim>\<open>notify\<close>, \<open>exported\<close> the directories written
    by export, each with its files;
  \<^item> \<open>crashed\<close> is the exception that left a handler uncaught, None while there was none:
    Textual ends the application on it. A handler in which a call raises stops there, with
    the attributes as they were at that moment, unless the call stands in a \<^verbatim>\<open>try\<close> block.
  What is only drawn (the preview pane, the mode bar, the labels of the rows, which widget
  is displayed) is left out. Dialogs and workers are run to completion inside the action
  that starts them, with the user's answer as an input of the action.
\<close>

datatype mode = SEARCH | EDIT

datatype focus = FocusInput | FocusResults | FocusEditor

datatype severity = Information | Warning | Error

text \<open>
  One constructor for each message the session passes to \<^verbatim>\<open>notify\<close>, with the values its
  f-string shows.
\<close>

datatype notice =
    Key_hint
  | Unsaved_changes
  | Note_not_found int
  | TextArea_not_available
  | Edit_mode string
  | No_notes_are_marked
  | Cleared_marked nat
  | No_notes_to_mark
  | Marked_all nat
  | Marked_all_in_browse nat
  | No_notes_marked_for_browse
  | Import_cancelled
  | Imported_and_skipped int int
  | Imported int
  | Import_failed error
  | No_notes_marked_for_export
  | Downloads_not_found
  | Exported int string
  | Export_failed error
  | Saved_note int
  | Quit_without_saving
  | Help_text
  | Unknown_command string

record app =
  store :: store
  mode :: mode
  marked :: "int set"
  editing_note_id :: "int option"
  original_body :: string
  matches :: "int list"
  snips :: "string list"
  input_value :: string
  editor_text :: "string option"
  results_rows :: "int list"
  results_index :: "nat option"
  focused :: focus
  notifications :: "(severity \<times> notice) list"
  exported :: "(string \<times> (string \<times> string) list) list"
  crashed :: "error option"

definition max_rows :: int where
  "max_rows = 500"

definition notify :: "notice \<Rightarrow> severity \<Rightarrow> app \<Rightarrow> app" where
  "notify msg sev s = s\<lparr>notifications := notifications s @ [(sev, msg)]\<rparr>"

text \<open>
  An exception that reaches the end of a handler: \<open>crash\<close> records it in the state the
  handler had reached, and \<open>or_crash\<close> does so for the last call of a handler.
\<close>

definition crash :: "error \<Rightarrow> app \<Rightarrow> app" where
  "crash e s = s\<lparr>crashed := Some e\<rparr>"

definition or_crash :: "app \<Rightarrow> error + app \<Rightarrow> app" where
  "or_crash s r = (case r of Inl e \<Rightarrow> crash e s | Inr s' \<Rightarrow> s')"

text \<open>\<open>ResultsList.set_items\<close> and \<open>ResultsList.current_note_id\<close>.\<close>

definition set_items :: "(int \<times> string) list \<Rightarrow> int \<Rightarrow> app \<Rightarrow> app" where
  "set_items items mx s =
     (let ids = map fst (take (nat mx) items)
      in s\<lparr>results_rows := ids, results_index := (if ids = [] then None else Some 0)\<rparr>)"

definition current_note_id :: "app \<Rightarrow> int option" where
  "current_note_id s =
     (case results_index s of
        None \<Rightarrow> None
      | Some i \<Rightarrow> if i < length (results_rows s) then Some (results_rows s ! i) else None)"

definition refresh_results :: "app \<Rightarrow> app" where
  "refresh_results s = set_items (zip (matches s) (snips s)) max_rows s"

text \<open>
  \<open>refresh_search\<close> raises what \<open>search\<close> raises, before it has assigned anything.
\<close>

definition refresh_search :: "string \<Rightarrow> app \<Rightarrow> error + app" where
  "refresh_search text s =
     (case search text max_rows (store s) of
        Inl e \<Rightarrow> Inl e
      | Inr pairs \<Rightarrow>
          Inr (refresh_results (s\<lparr>matches := map fst pairs, snips := map snd pairs\<rparr>)))"

definition enter_edit :: "int \<Rightarrow> app \<Rightarrow> app" where
  "enter_edit nid s =
     (case get nid (store s) of
        None \<Rightarrow> notify (Note_not_found nid) Warning s
      | Some (_, t, b, _, _) \<Rightarrow>
          (case editor_text s of
             None \<Rightarrow> notify TextArea_not_available Error s
           | Some _ \<Rightarrow>
               notify (Edit_mode t) Information
                 (s\<lparr>mode := EDIT, editing_note_id := Some nid, original_body := b,
                    editor_text := Some b, focused := FocusEditor\<rparr>)))"

definition action_mode_back :: "app \<Rightarrow> app" where
  "action_mode_back s =
     (if mode s = EDIT
      then (if (case editor_text s of None \<Rightarrow> False | Some t \<Rightarrow> t \<noteq> original_body s)
            then notify Unsaved_changes Warning s
            else (let s1 = s\<lparr>mode := SEARCH, editing_note_id := None, original_body := ''''\<rparr>
                  in (case refresh_search (input_value s) s1 of
                        Inl e \<Rightarrow> crash e s1
                      | Inr s2 \<Rightarrow> s2\<lparr>focused := FocusInput\<rparr>)))
      else s\<lparr>mode := SEARCH, focused := FocusInput\<rparr>)"

definition action_open_or_edit :: "string \<Rightarrow> app \<Rightarrow> app" where
  "action_open_or_edit now s =
     (if mode s \<noteq> SEARCH then s
      else (let nid = current_note_id s;
                is_in_results = (focused s = FocusResults)
            in (case (if is_in_results then nid else None) of
                  Some i \<Rightarrow> enter_edit i s
                | None \<Rightarrow>
                    (let q = strip (input_value s)
                     in if q \<noteq> []
                        then (case search q 1 (store s) of
                                Inl e \<Rightarrow> crash e s
                              | Inr (p # _) \<Rightarrow> enter_edit (fst p) s
                              | Inr [] \<Rightarrow>
                                  (case upsert now q '''' None None (store s) of
                                     Inl e \<Rightarrow> crash e s
                                   | Inr (new_id, st') \<Rightarrow>
                                       (case refresh_search q (s\<lparr>store := st'\<rparr>) of
                                          Inl e \<Rightarrow> crash e (s\<lparr>store := st'\<rparr>)
                                        | Inr s1 \<Rightarrow> enter_edit new_id s1)))
                        else (case nid of None \<Rightarrow> s | Some i \<Rightarrow> enter_edit i s)))))"

definition toggle :: "int \<Rightarrow> int set \<Rightarrow> int set" where
  "toggle nid m = (if nid \<in> m then m - {nid} else insert nid m)"

definition action_toggle_mark :: "app \<Rightarrow> app" where
  "action_toggle_mark s =
     (if mode s = EDIT then s
      else (case current_note_id s of
              None \<Rightarrow> s
            | Some nid \<Rightarrow>
                (let current_index = results_index s;
                     s1 = refresh_results (s\<lparr>marked := toggle nid (marked s)\<rparr>)
                 in (case current_index of
                       None \<Rightarrow> s1
                     | Some i \<Rightarrow>
                         if results_rows s1 \<noteq> []
                         then s1\<lparr>results_index := Some (min (i + 1) (length (results_rows s1) - 1))\<rparr>
                         else s1))))"

definition action_clear_all_marks :: "app \<Rightarrow> app" where
  "action_clear_all_marks s =
     (if mode s = EDIT then s
      else if marked s = {} then notify No_notes_are_marked Information s
      else notify (Cleared_marked (card (marked s))) Information
             (refresh_results (s\<lparr>marked := {}\<rparr>)))"

definition action_mark_all :: "app \<Rightarrow> app" where
  "action_mark_all s =
     (if mode s = EDIT then s
      else if matches s = [] then notify No_notes_to_mark Information s
      else notify (Marked_all (length (matches s)))
             Information (refresh_results (s\<lparr>marked := marked s \<union> set (matches s)\<rparr>)))"

text \<open>
  The cursor keys give the focus to the results list and move its cursor as a Textual
  ListView does: to the first row when there was no cursor, else one row on, within the list.
\<close>

definition action_cursor_down :: "app \<Rightarrow> app" where
  "action_cursor_down s =
     (if mode s = EDIT then s
      else s\<lparr>focused := FocusResults,
             results_index :=
               (if results_rows s = [] then None
                else (case results_index s of
                        None \<Rightarrow> Some 0
                      | Some i \<Rightarrow> Some (min (i + 1) (length (results_rows s) - 1))))\<rparr>)"

definition action_cursor_up :: "app \<Rightarrow> app" where
  "action_cursor_up s =
     (if mode s = EDIT then s
      else s\<lparr>focused := FocusResults,
             results_index :=
               (if results_rows s = [] then None
                else (case results_index s of
                        None \<Rightarrow> Some (length (results_rows s) - 1)
                      | Some i \<Rightarrow> Some (i - 1)))\<rparr>)"

definition action_save_edit :: "string \<Rightarrow> app \<Rightarrow> app" where
  "action_save_edit now s =
     (if mode s \<noteq> EDIT then s
      else (case (editor_text s, editing_note_id s) of
              (Some text, Some nid) \<Rightarrow>
                (case get nid (store s) of
                   None \<Rightarrow> s
                 | Some (_, t, _, _, _) \<Rightarrow>
                     (case upsert now t text (Some nid) None (store s) of
                        Inl e \<Rightarrow> crash e s
                      | Inr (_, st') \<Rightarrow>
                          (let s1 = notify (Saved_note nid) Information
                                      (s\<lparr>store := st', original_body := text\<rparr>)
                           in or_crash s1 (refresh_search (input_value s) s1))))
            | _ \<Rightarrow> s))"

subsection \<open>Import and export from the session\<close>

text \<open>
  \<open>_do_import\<close>, with the answer of the import dialog (None when it was cancelled) and the
  clock reading taken while each file is imported. An exception inside the \<^verbatim>\<open>try\<close> block
  is reported and ends the action: the notes imported before it stay in the store, and no
  note is marked when it is raised by the import of a file.
\<close>

fun import_files ::
  "(8 word list \<Rightarrow> string) \<Rightarrow> ('p \<Rightarrow> string option) \<Rightarrow> ('p \<Rightarrow> string)
     \<Rightarrow> ('p \<times> string) list \<Rightarrow> store \<Rightarrow> (int \<times> int \<times> int list)
     \<Rightarrow> store \<times> (error + (int \<times> int \<times> int list))" where
  "import_files sha256 read_text stem [] st acc = (st, Inr acc)"
| "import_files sha256 read_text stem ((p, now) # ps) st (imported, skipped, ids) =
     (case import_text_file sha256 now read_text stem p st of
        Inl e \<Rightarrow> (st, Inl e)
      | Inr ((imp, skip, nid), st') \<Rightarrow>
          import_files sha256 read_text stem ps st'
            (imported + imp, skipped + skip,
             (case nid of None \<Rightarrow> ids | Some i \<Rightarrow> ids @ [i])))"

definition do_import ::
  "(8 word list \<Rightarrow> string) \<Rightarrow> ('p \<Rightarrow> string option) \<Rightarrow> ('p \<Rightarrow> string)
     \<Rightarrow> ('p \<times> string) list option \<Rightarrow> app \<Rightarrow> app" where
  "do_import sha256 read_text stem result s =
     (case result of
        None \<Rightarrow> notify Import_cancelled Information s
      | Some ps \<Rightarrow>
          if ps = [] then notify Import_cancelled Information s
          else (case import_files sha256 read_text stem ps (store s) (0, 0, []) of
                  (st', Inl e) \<Rightarrow> notify (Import_failed e) Error (s\<lparr>store := st'\<rparr>)
                | (st', Inr (imported, skipped, ids)) \<Rightarrow>
                    (let s1 = s\<lparr>store := st', marked := marked s \<union> set ids,
                                input_value := ''''\<rparr>
                     in (case refresh_search '''' s1 of
                           Inl e \<Rightarrow> notify (Import_failed e) Error s1
                         | Inr s2 \<Rightarrow>
                             if skipped > 0
                             then notify (Imported_and_skipped imported skipped) Information s2
                             else notify (Imported imported) Information s2))))"

text \<open>
  What the file system does with an export: it takes the directory and every file, or
  \<^verbatim>\<open>mkdir\<close> raises, or \<^verbatim>\<open>write_text\<close> raises after so many files have been written.
\<close>

datatype fs_outcome = Written | Mkdir_failed | Write_failed nat

text \<open>
  \<open>action_export_notes\<close>. Its inputs are whether \<^verbatim>\<open>~/Downloads\<close> exists, the formatted
  local time, the order in which \<^verbatim>\<open>list(self.marked)\<close> lists the marked set (Python fixes
  none; a list that is not an enumeration of the set stands for the ascending one), and
  what the file system does. An exception is caught and reported.
\<close>

definition action_export_notes ::
  "bool \<Rightarrow> string \<Rightarrow> int list \<Rightarrow> fs_outcome \<Rightarrow> app \<Rightarrow> app" where
  "action_export_notes downloads_exists timestamp listed outcome s =
     (if marked s = {}
      then notify No_notes_marked_for_export Warning s
      else if \<not> downloads_exists then notify Downloads_not_found Warning s
      else (let export_dir = ''notry_export_'' @ timestamp;
                note_ids = (if set listed = marked s \<and> distinct listed then listed
                            else sorted_list_of_set (marked s));
                (n, files) = export_separate_files (Some note_ids) (store s)
            in (case outcome of
                  Written \<Rightarrow>
                    notify (Exported n export_dir) Information
                      (s\<lparr>exported := exported s @ [(export_dir, files)]\<rparr>)
                | Mkdir_failed \<Rightarrow> notify (Export_failed OSError) Error s
                | Write_failed k \<Rightarrow>
                    notify (Export_failed OSError) Error
                      (s\<lparr>exported := exported s @ [(export_dir, take k files)]\<rparr>))))"

subsection \<open>The Browse screen\<close>

text \<open>
  The Browse screen works on the marked set of the application itself (the same Python
  set object), so what it marks and unmarks is marked and unmarked in the application. Its
  cards are the marked notes that \<open>get\<close> finds, by ascending id. The focus is taken to be on
  the card at \<open>current_index\<close>, where each of the screen's own actions puts it. The keys
  f2 and f3, which the screen hands to the application's import and export, are not part of
  this model of the screen.
\<close>

datatype browse_action =
    BCursorDown | BCursorUp | BToggleMark | BMarkAll | BClearMarks | BSelect | BCancel

record browse =
  cards :: "int list"
  current_index :: nat
  marked_set :: "int set"
  notified :: "(severity \<times> notice) list"

definition browse_mount :: "store \<Rightarrow> int set \<Rightarrow> browse" where
  "browse_mount st m =
     \<lparr>cards = filter (\<lambda>nid. get nid st \<noteq> None) (sorted_list_of_set m),
      current_index = 0, marked_set = m, notified = []\<rparr>"

definition browse_focused :: "browse \<Rightarrow> int option" where
  "browse_focused b =
     (if current_index b < length (cards b) then Some (cards b ! current_index b) else None)"

text \<open>
  One key in the Browse screen: the screen after it and, when the key dismissed the screen,
  the value it was dismissed with.
\<close>

definition browse_step :: "browse_action \<Rightarrow> browse \<Rightarrow> browse \<times> int option option" where
  "browse_step a b =
     (case a of
        BCursorDown \<Rightarrow>
          (if cards b \<noteq> [] \<and> current_index b < length (cards b) - 1
           then (b\<lparr>current_index := current_index b + 1\<rparr>, None) else (b, None))
      | BCursorUp \<Rightarrow>
          (if cards b \<noteq> [] \<and> current_index b > 0
           then (b\<lparr>current_index := current_index b - 1\<rparr>, None) else (b, None))
      | BToggleMark \<Rightarrow>
          (case browse_focused b of
             None \<Rightarrow> (b, None)
           | Some nid \<Rightarrow>
               (let b1 = b\<lparr>marked_set := toggle nid (marked_set b)\<rparr>
                in if current_index b < length (cards b) - 1
                   then (b1\<lparr>current_index := current_index b + 1\<rparr>, None) else (b1, None)))
      | BMarkAll \<Rightarrow>
          (b\<lparr>marked_set := marked_set b \<union> set (cards b),
             notified := notified b @ [(Information, Marked_all_in_browse (length (cards b)))]\<rparr>,
           None)
      | BClearMarks \<Rightarrow>
          (b\<lparr>marked_set := {},
             notified := notified b @ [(Information, Cleared_marked (card (marked_set b)))]\<rparr>,
           None)
      | BSelect \<Rightarrow>
          (case browse_focused b of None \<Rightarrow> (b, None) | Some nid \<Rightarrow> (b, Some (Some nid)))
      | BCancel \<Rightarrow> (b, Some None))"

text \<open>
  The keys pressed in the Browse screen, up to the one that dismisses it. The result is None
  while the screen is still open after the last key.
\<close>

fun browse_run :: "browse_action list \<Rightarrow> browse \<Rightarrow> browse \<times> int option option" where
  "browse_run [] b = (b, None)"
| "browse_run (a # as) b =
     (case browse_step a b of
        (b', Some r) \<Rightarrow> (b', Some r)
      | (b', None) \<Rightarrow> browse_run as b')"

definition action_toggle_browse_mode :: "browse_action list \<Rightarrow> app \<Rightarrow> app" where
  "action_toggle_browse_mode keys s =
     (if mode s = EDIT then s
      else if marked s = {} then notify No_notes_marked_for_browse Warning s
      else (case browse_run keys (browse_mount (store s) (marked s)) of
              (b, None) \<Rightarrow>
                s\<lparr>marked := marked_set b, notifications := notifications s @ notified b\<rparr>
            | (b, Some result) \<Rightarrow>
                (let s1 = refresh_results
                            (s\<lparr>marked := marked_set b,
                               notifications := notifications s @ notified b\<rparr>)
                 in (case result of
                       None \<Rightarrow> s1
                     | Some nid \<Rightarrow> enter_edit nid (s1\<lparr>mode := SEARCH\<rparr>)))))"

subsection \<open>Input events and commands\<close>

definition first_token :: "string \<Rightarrow> string" where
  "first_token s = takeWhile (\<lambda>c. \<not> isspace c) (dropWhile isspace s)"

definition run_command :: "string \<Rightarrow> app \<Rightarrow> app" where
  "run_command cmdline s =
     (if first_token cmdline = [] then s
      else (let cmd = py_lower (first_token cmdline)
            in if cmd = ''quit'' \<or> cmd = ''q''
               then (if mode s = EDIT
                     then notify Quit_without_saving Information
                            (s\<lparr>mode := SEARCH, editing_note_id := None, original_body := '''',
                               focused := FocusInput\<rparr>)
                     else s)
               else if cmd = ''help'' then notify Help_text Information s
               else notify (Unknown_command cmd) Warning s))"

definition startswith_colon :: "string \<Rightarrow> bool" where
  "startswith_colon s = (case s of [] \<Rightarrow> False | c # _ \<Rightarrow> c = CHR '':'')"

definition on_input_changed :: "string \<Rightarrow> app \<Rightarrow> app" where
  "on_input_changed text s =
     (if startswith_colon text then s
      else if mode s = EDIT then s
      else or_crash s (refresh_search text s))"

definition on_input_submitted :: "string \<Rightarrow> app \<Rightarrow> app" where
  "on_input_submitted now s =
     (let text = strip (input_value s)
      in if startswith_colon text then run_command (strip (tl text)) s
         else action_open_or_edit now s)"

definition on_list_view_selected :: "app \<Rightarrow> app" where
  "on_list_view_selected s =
     (if mode s \<noteq> SEARCH then s
      else (case current_note_id s of None \<Rightarrow> s | Some nid \<Rightarrow> enter_edit nid s))"

subsection \<open>One step of the session\<close>

text \<open>
  Every key binding and event handler of the application is an action; typing into the
  search input and into the editor are the two remaining ways the user changes the state.
  The inputs an action takes from outside (the clock, the answer of a dialog, the keys
  pressed in the Browse screen, the file system) are its arguments. After an uncaught
  exception the application has ended and no action changes its state.
\<close>

datatype 'p action =
    ModeBack
  | OpenOrEdit string
  | ImportNotes "('p \<times> string) list option"
  | ExportNotes bool string "int list" fs_outcome
  | ToggleMark
  | MarkAll
  | ClearAllMarks
  | CursorDown
  | CursorUp
  | SaveEdit string
  | ToggleBrowseMode "browse_action list"
  | InputChanged string
  | InputSubmitted string
  | ListViewSelected
  | EditorTyped string

definition step ::
  "(8 word list \<Rightarrow> string) \<Rightarrow> ('p \<Rightarrow> string option) \<Rightarrow> ('p \<Rightarrow> string) \<Rightarrow> 'p action
     \<Rightarrow> app \<Rightarrow> app" where
  "step sha256 read_text stem a s =
     (if crashed s \<noteq> None then s
      else case a of
        ModeBack \<Rightarrow> action_mode_back s
      | OpenOrEdit now \<Rightarrow> action_open_or_edit now s
      | ImportNotes result \<Rightarrow> do_import sha256 read_text stem result s
      | ExportNotes downloads_exists timestamp listed outcome \<Rightarrow>
          action_export_notes downloads_exists timestamp listed outcome s
      | ToggleMark \<Rightarrow> action_toggle_mark s
      | MarkAll \<Rightarrow> action_mark_all s
      | ClearAllMarks \<Rightarrow> action_clear_all_marks s
      | CursorDown \<Rightarrow> action_cursor_down s
      | CursorUp \<Rightarrow> action_cursor_up s
      | SaveEdit now \<Rightarrow> action_save_edit now s
      | ToggleBrowseMode keys \<Rightarrow> action_toggle_browse_mode keys s
      | InputChanged text \<Rightarrow> on_input_changed text (s\<lparr>input_value := text\<rparr>)
      | InputSubmitted now \<Rightarrow> on_input_submitted now s
      | ListViewSelected \<Rightarrow> on_list_view_selected s
      | EditorTyped text \<Rightarrow>
          (if mode s = EDIT \<and> editor_text s \<noteq> None then s\<lparr>editor_text := Some text\<rparr> else s))"

subsection \<open>Kinds of action\<close>

text \<open>
  The actions that are mark operations (toggle, mark all and clear, in the main list or
  from the keys of the Browse screen), the import action, and the keys of the Browse
  screen that mark or unmark.
\<close>

fun mark_operation :: "'p action \<Rightarrow> bool" where
  "mark_operation ToggleMark = True"
| "mark_operation MarkAll = True"
| "mark_operation ClearAllMarks = True"
| "mark_operation (ToggleBrowseMode keys) = True"
| "mark_operation _ = False"

fun is_import :: "'p action \<Rightarrow> bool" where
  "is_import (ImportNotes result) = True"
| "is_import _ = False"

definition marking_key :: "browse_action \<Rightarrow> bool" where
  "marking_key k = (k = BToggleMark \<or> k = BMarkAll \<or> k = BClearMarks)"

text \<open>The application as \<open>on_mount\<close> leaves it, on a given store.\<close>

definition on_mount :: "bool \<Rightarrow> store \<Rightarrow> app" where
  "on_mount has_textarea st =
     (let s0 = \<lparr>store = st, mode = SEARCH, marked = {}, editing_note_id = None,
                original_body = '''', matches = [], snips = [], input_value = '''',
                editor_text = (if has_textarea then Some '''' else None),
                results_rows = [], results_index = None, focused = FocusInput,
                notifications = [], exported = [], crashed = None\<rparr>
      in (case refresh_search '''' s0 of
            Inl e \<Rightarrow> crash e s0
          | Inr s1 \<Rightarrow> notify Key_hint Information s1))"

text \<open>
  A store in which a digest has one holder: notes that hold the same digest are the same
  note.
\<close>

definition hash_owner_unique :: "store \<Rightarrow> bool" where
  "hash_owner_unique st =
     (\<forall>n \<in> set (rows st). \<forall>m \<in> set (rows st).
        import_hash n \<noteq> None \<and> import_hash n = import_hash m \<longrightarrow> note_id n = note_id m)"

section \<open>Example inputs\<close>

text \<open>
  A directory with two text files, and the stem of a file name as \<^verbatim>\<open>pathlib\<close> gives it for
  these names (the name up to its suffix).
\<close>

definition example_read_text :: "string \<Rightarrow> string option" where
  "example_read_text p =
     (if p = ''todo.txt'' then Some ''buy milk''
      else if p = ''plan.md'' then Some ''alpha beta''
      else None)"

text \<open>A digest function for the examples; the theorems hold for every digest function.\<close>

definition example_digest :: "8 word list \<Rightarrow> string" where
  "example_digest bs = map (\<lambda>b. char_of (unat b)) bs"

definition example_stem :: "string \<Rightarrow> string" where
  "example_stem p = takeWhile (\<lambda>c. c \<noteq> CHR ''.'') p"

text \<open>
  A store with the one note that \<^verbatim>\<open>upsert("X", "")\<close> makes, and three sessions: one that
  has opened that note and typed into the editor without saving, one that has marked it,
  and one that has imported \<^verbatim>\<open>todo.txt\<close> into an empty store, opened the note and typed.
\<close>

definition example_store :: store where
  "example_store = snd (projr (upsert ''2026-11-04T09:00:00+00:00'' ''X'' '''' None None empty_store))"

definition example_editing :: app where
  "example_editing =
     step example_digest example_read_text example_stem (EditorTyped ''draft'')
       (step example_digest example_read_text example_stem (InputSubmitted ''2026-11-04T09:01:00+00:00'')
          (step example_digest example_read_text example_stem (InputChanged ''X'')
             (on_mount True example_store)))"

definition example_marked :: app where
  "example_marked =
     step example_digest example_read_text example_stem ToggleMark (on_mount True example_store)"

definition example_imported_editing :: app where
  "example_imported_editing =
     step example_digest example_read_text example_stem (EditorTyped ''buy milk and eggs'')
       (step example_digest example_read_text example_stem (InputSubmitted ''2026-11-04T09:02:00+00:00'')
          (step example_digest example_read_text example_stem
             (ImportNotes (Some [(''todo.txt'', ''2026-11-04T09:01:00+00:00'')]))
             (on_mount True empty_store)))"

text \<open>
  Two notes made in the same second, as \<open>seed\<close> makes them; a store with a title that
  is a LIKE pattern's match and a title with a capital letter outside ASCII; a store with
  a title of which a file name keeps nothing; and a store with a title that has a NUL
  character in it.
\<close>

definition example_two_notes :: store where
  "example_two_notes =
     snd (projr (upsert ''2026-11-04T09:00:00+00:00'' ''B'' ''beta gamma'' None None
       (snd (projr (upsert ''2026-11-04T09:00:00+00:00'' ''A'' ''Alpha beta'' None None empty_store)))))"

definition example_like_store :: store where
  "example_like_store =
     snd (projr (upsert ''2026-11-04T09:00:05+00:00'' [CHR 0xC9] ''y'' None None
       (snd (projr (upsert ''2026-11-04T09:00:00+00:00'' ''abc'' ''x'' None None empty_store)))))"


definition example_nul_store :: store where
  "example_nul_store =
     snd (projr (upsert ''2026-11-04T09:00:00+00:00'' [CHR ''a'', CHR 0x00, CHR ''b'', CHR ''c''] ''x''
       None None empty_store))"

section \<open>Facts about the row counter\<close>

lemma fold_max_ge_init: "(a::int) \<le> fold max xs a"
  by (induction xs arbitrary: a) (auto intro: order_trans [OF max.cobounded2])

lemma fold_max_ge_elem: "(x::int) \<in> set xs \<Longrightarrow> x \<le> fold max xs a"
proof (induction xs arbitrary: a)
  case Nil
  then show ?case by simp
next
  case (Cons y ys)
  show ?case
  proof (cases "x = y")
    case True
    have "y \<le> max y a" by simp
    also have "\<dots> \<le> fold max ys (max y a)" by (rule fold_max_ge_init)
    finally show ?thesis using True by simp
  next
    case False
    with Cons.prems have "x \<in> set ys" by simp
    then show ?thesis using Cons.IH by simp
  qed
qed

lemma next_rowid_fresh: "next_rowid st \<notin> ids_of st"
proof
  assume "next_rowid st \<in> ids_of st"
  then have "next_rowid st \<in> set (map note_id (rows st))"
    by (simp add: ids_of_def)
  then have "next_rowid st \<le> fold max (map note_id (rows st)) (sqlite_sequence st)"
    by (rule fold_max_ge_elem)
  then show False by (simp add: next_rowid_def)
qed

lemma next_rowid_above_sequence: "sqlite_sequence st < next_rowid st"
  using fold_max_ge_init [of "sqlite_sequence st" "map note_id (rows st)"]
  by (simp add: next_rowid_def)

lemma find_append_fresh:
  "\<forall>x \<in> set xs. \<not> P x \<Longrightarrow> find P (xs @ ys) = find P ys"
  by (induction xs) auto

lemma get_None_iff: "get nid st = None \<longleftrightarrow> nid \<notin> ids_of st"
proof -
  have "find (\<lambda>n. note_id n = nid) (rows st) = None \<longleftrightarrow> nid \<notin> note_id ` set (rows st)"
    unfolding find_None_iff by blast
  then show ?thesis
    by (cases "find (\<lambda>n. note_id n = nid) (rows st)") (simp_all add: get_def ids_of_def)
qed

section \<open>Insertion\<close>

lemma upsert_insert:
  "upsert now t b None h st =
     Inr (next_rowid st,
          \<lparr>rows = rows st @ [\<lparr>note_id = next_rowid st, title = t, body = b, created_at = now,
                                 updated_at = now, import_hash = h\<rparr>],
           sqlite_sequence = next_rowid st\<rparr>)"
  by (simp add: upsert_def Let_def)

lemma upsert_insert_store:
  "count_notes (snd (projr (upsert now t b None h st))) = count_notes st + 1"
  "ids_of (snd (projr (upsert now t b None h st))) = insert (next_rowid st) (ids_of st)"
  "get (next_rowid st) (snd (projr (upsert now t b None h st))) = Some (next_rowid st, t, b, now, now)"
proof -
  have fresh: "\<forall>n \<in> set (rows st). \<not> note_id n = next_rowid st"
    using next_rowid_fresh [of st] unfolding ids_of_def by (metis imageI)
  show "count_notes (snd (projr (upsert now t b None h st))) = count_notes st + 1"
    by (simp add: upsert_insert count_notes_def)
  show "ids_of (snd (projr (upsert now t b None h st))) = insert (next_rowid st) (ids_of st)"
    by (simp add: upsert_insert ids_of_def)
  show "get (next_rowid st) (snd (projr (upsert now t b None h st))) = Some (next_rowid st, t, b, now, now)"
    by (simp add: upsert_insert get_def find_append_fresh [OF fresh])
qed

text \<open>
  C8. For every store, title and body, \<open>upsert\<close> without an id raises \<open>count()\<close> by exactly
  one, returns an id that no note of the store held before, and the note it creates, read
  back with \<open>get\<close>, has \<open>created_at\<close> equal to \<open>updated_at\<close> (both are the clock value).
\<close>

theorem upsert_insert_new_note:
  "\<exists>new_id st'.
     upsert now t b None h st = Inr (new_id, st')
     \<and> count_notes st' = count_notes st + 1
     \<and> new_id \<notin> ids_of st
     \<and> get new_id st' = Some (new_id, t, b, now, now)"
proof -
  let ?n = "\<lparr>note_id = next_rowid st, title = t, body = b, created_at = now,
             updated_at = now, import_hash = h\<rparr>"
  let ?st' = "\<lparr>rows = rows st @ [?n], sqlite_sequence = next_rowid st\<rparr>"
  have fresh: "\<forall>n \<in> set (rows st). \<not> note_id n = next_rowid st"
    using next_rowid_fresh [of st] unfolding ids_of_def by (metis imageI)
  have r: "upsert now t b None h st = Inr (next_rowid st, ?st')"
    by (rule upsert_insert)
  have c: "count_notes ?st' = count_notes st + 1"
    by (simp add: count_notes_def)
  have g: "get (next_rowid st) ?st' = Some (next_rowid st, t, b, now, now)"
    by (simp add: get_def find_append_fresh [OF fresh])
  from r c g next_rowid_fresh [of st] show ?thesis by blast
qed

section \<open>Update of an unknown id\<close>

lemma map_update_row_id:
  "nid \<notin> note_id ` set ns \<Longrightarrow> map (update_row t b now h nid) ns = ns"
  by (induction ns) (auto simp: update_row_def)

lemma example_two_notes_eq:
  "example_two_notes = \<lparr>rows =
      [\<lparr>note_id = 1, title = ''A'', body = ''Alpha beta'',
        created_at = ''2026-11-04T09:00:00+00:00'', updated_at = ''2026-11-04T09:00:00+00:00'',
        import_hash = None\<rparr>,
       \<lparr>note_id = 2, title = ''B'', body = ''beta gamma'',
        created_at = ''2026-11-04T09:00:00+00:00'', updated_at = ''2026-11-04T09:00:00+00:00'',
        import_hash = None\<rparr>], sqlite_sequence = 2\<rparr>"
  by (simp add: example_two_notes_def upsert_def empty_store_def next_rowid_def Let_def)

text \<open>
  The claim C6 as stated fails for an id that SQLite cannot hold: \<open>2 ^ 63\<close> is the id of no
  note, and \<open>upsert\<close> with it raises OverflowError where the claim says that the call does
  not fail and returns the id.
\<close>

theorem upsert_id_out_of_range:
  "(2 ^ 63 :: int) \<notin> ids_of example_two_notes
   \<and> upsert ''2026-11-04T10:00:00+00:00'' ''T'' ''B'' (Some (2 ^ 63)) None example_two_notes
       = Inl OverflowError"
  by (simp add: ids_of_def example_two_notes_eq upsert_def sqlite_int_def)

text \<open>
  C6 (amended). For every id that no note of the store holds: when the id is within the 64
  bits of an SQLite INTEGER, \<open>upsert\<close> with that id does not fail, returns the id and
  leaves the store as it was, so that no row is created and \<open>count()\<close> and every field of
  every note are unchanged; when it is outside them, the call raises OverflowError (and
  there is no store after it other than the one before).
\<close>

theorem upsert_unknown_id_noop:
  assumes "nid \<notin> ids_of st"
  shows "(sqlite_int nid \<longrightarrow> upsert now t b (Some nid) h st = Inr (nid, st))
       \<and> (\<not> sqlite_int nid \<longrightarrow> upsert now t b (Some nid) h st = Inl OverflowError)"
  using assms by (simp add: upsert_def ids_of_def map_update_row_id)

theorem upsert_unknown_id_noop_witness:
  "(7::int) \<notin> ids_of example_two_notes \<and> sqlite_int 7
   \<and> upsert ''2026-11-04T10:00:00+00:00'' ''T'' ''B'' (Some 7) None example_two_notes
       = Inr (7, example_two_notes)
   \<and> count_notes example_two_notes = 2
   \<and> get 1 example_two_notes
       = Some (1, ''A'', ''Alpha beta'', ''2026-11-04T09:00:00+00:00'', ''2026-11-04T09:00:00+00:00'')
   \<and> (- (2 ^ 63) - 1 :: int) \<notin> ids_of example_two_notes \<and> \<not> sqlite_int (- (2 ^ 63) - 1)
   \<and> upsert ''2026-11-04T10:00:00+00:00'' ''T'' ''B'' (Some (- (2 ^ 63) - 1)) None example_two_notes
       = Inl OverflowError"
proof -
  have h: "(7::int) \<notin> ids_of example_two_notes"
    by (simp add: ids_of_def example_two_notes_eq)
  have i: "sqlite_int 7" by (simp add: sqlite_int_def)
  have c: "count_notes example_two_notes = 2"
    by (simp add: count_notes_def example_two_notes_eq)
  have g: "get 1 example_two_notes
       = Some (1, ''A'', ''Alpha beta'', ''2026-11-04T09:00:00+00:00'', ''2026-11-04T09:00:00+00:00'')"
    by (simp add: get_def example_two_notes_eq)
  have h': "(- (2 ^ 63) - 1 :: int) \<notin> ids_of example_two_notes"
    by (simp add: ids_of_def example_two_notes_eq)
  have i': "\<not> sqlite_int (- (2 ^ 63) - 1)" by (simp add: sqlite_int_def)
  from upsert_unknown_id_noop [OF h] i
  have u: "upsert ''2026-11-04T10:00:00+00:00'' ''T'' ''B'' (Some 7) None example_two_notes
       = Inr (7, example_two_notes)" by blast
  from upsert_unknown_id_noop [OF h'] i'
  have u': "upsert ''2026-11-04T10:00:00+00:00'' ''T'' ''B'' (Some (- (2 ^ 63) - 1)) None
       example_two_notes = Inl OverflowError" by blast
  from h i u c g h' i' u' show ?thesis by blast
qed

section \<open>Import of the same file twice\<close>

lemma note_exists_by_hash_iff:
  "note_exists_by_hash h st \<longleftrightarrow> (\<exists>n \<in> set (rows st). import_hash n = Some h)"
  by (auto simp: note_exists_by_hash_def filter_empty_conv)

lemma import_new:
  assumes "read_text p = Some content"
    and "\<not> note_exists_by_hash (compute_hash sha256 (import_title stem p) content) st"
  shows "import_text_file sha256 now read_text stem p st =
           Inr ((1, 0, Some (next_rowid st)),
                snd (projr (upsert now (import_title stem p) content None
                       (Some (compute_hash sha256 (import_title stem p) content)) st)))"
  using assms by (simp add: import_text_file_def Let_def upsert_def split: prod.splits)

lemma import_duplicate:
  assumes "read_text p = Some content"
    and "note_exists_by_hash (compute_hash sha256 (import_title stem p) content) st"
  shows "import_text_file sha256 now read_text stem p st = Inr ((0, 1, None), st)"
  using assms by (simp add: import_text_file_def Let_def)

lemma exists_after_insert:
  "note_exists_by_hash h (snd (projr (upsert now t b None (Some h) st)))"
  by (simp add: note_exists_by_hash_iff upsert_def Let_def)

text \<open>
  C5. For every readable file whose digest (of its stem as title and its text as body) no
  note of the store holds: the first import returns \<open>(1, 0, new_id)\<close> with an id that is new
  to the store, the second import, of the same file on the store the first one left,
  returns \<open>(0, 1, None)\<close> and leaves that store unchanged, and \<open>count()\<close> has grown by
  exactly one.
\<close>

theorem import_twice:
  assumes "read_text p = Some content"
    and "\<not> note_exists_by_hash (compute_hash sha256 (import_title stem p) content) st"
  shows "\<exists>new_id st1.
           import_text_file sha256 now1 read_text stem p st = Inr ((1, 0, Some new_id), st1)
           \<and> new_id \<notin> ids_of st
           \<and> import_text_file sha256 now2 read_text stem p st1 = Inr ((0, 1, None), st1)
           \<and> count_notes st1 = count_notes st + 1"
proof -
  let ?h = "compute_hash sha256 (import_title stem p) content"
  let ?st1 = "snd (projr (upsert now1 (import_title stem p) content None (Some ?h) st))"
  have first: "import_text_file sha256 now1 read_text stem p st = Inr ((1, 0, Some (next_rowid st)), ?st1)"
    using assms by (rule import_new)
  have second: "import_text_file sha256 now2 read_text stem p ?st1 = Inr ((0, 1, None), ?st1)"
    using assms(1) exists_after_insert by (rule import_duplicate)
  have cnt: "count_notes ?st1 = count_notes st + 1"
    by (simp add: upsert_def Let_def count_notes_def)
  from first second cnt next_rowid_fresh [of st] show ?thesis by blast
qed

theorem import_twice_witness:
  "example_read_text ''todo.txt'' = Some ''buy milk''
   \<and> \<not> note_exists_by_hash (compute_hash example_digest (import_title example_stem ''todo.txt'') ''buy milk'')
         empty_store
   \<and> (\<exists>new_id st1.
         import_text_file example_digest ''2026-11-04T10:00:00+00:00'' example_read_text example_stem ''todo.txt''
           empty_store = Inr ((1, 0, Some new_id), st1)
         \<and> new_id \<notin> ids_of empty_store
         \<and> import_text_file example_digest ''2026-11-04T10:00:05+00:00'' example_read_text example_stem
             ''todo.txt'' st1 = Inr ((0, 1, None), st1)
         \<and> count_notes st1 = count_notes empty_store + 1)"
proof -
  have r: "example_read_text ''todo.txt'' = Some ''buy milk''"
    by (simp add: example_read_text_def)
  have n: "\<not> note_exists_by_hash
               (compute_hash example_digest (import_title example_stem ''todo.txt'') ''buy milk'') empty_store"
    by (simp add: note_exists_by_hash_def empty_store_def)
  show ?thesis
    using r n
      import_twice [where ?sha256.0 = example_digest and read_text = example_read_text and stem = example_stem
        and p = "''todo.txt''" and content = "''buy milk''" and st = empty_store
        and ?now1.0 = "''2026-11-04T10:00:00+00:00''" and ?now2.0 = "''2026-11-04T10:00:05+00:00''"]
    by blast
qed

section \<open>The dedup digest\<close>

lemma byte_of_nat_inj:
  "x < 256 \<Longrightarrow> y < 256 \<Longrightarrow> (of_nat x :: 8 word) = of_nat y \<Longrightarrow> x = y"
  by (simp add: word_of_nat_eq_iff take_bit_nat_eq_self)

lemma of_char_lt_256: "(of_char c :: nat) < 256"
  by simp

lemma utf8_char_cancel:
  assumes "utf8_char a @ xs = utf8_char b @ ys"
  shows "a = b \<and> xs = ys"
proof -
  let ?m = "of_char a :: nat" and ?n = "of_char b :: nat"
  have ma: "?m < 256" and nb: "?n < 256" by simp_all
  have hi: "192 + k div 64 < 256" "128 + k mod 64 < 256" if "k < 256" for k :: nat
    using that by simp_all
  consider (ll) "?m < 128" "?n < 128" | (lh) "?m < 128" "\<not> ?n < 128"
    | (hl) "\<not> ?m < 128" "?n < 128" | (hh) "\<not> ?m < 128" "\<not> ?n < 128" by blast
  then show ?thesis
  proof cases
    case ll
    with assms have "(of_nat ?m :: 8 word) = of_nat ?n" and xy: "xs = ys"
      by (simp_all add: utf8_char_def Let_def)
    with ma nb have "?m = ?n" by (blast intro: byte_of_nat_inj)
    with xy show ?thesis by simp
  next
    case lh
    with assms have "(of_nat ?m :: 8 word) = of_nat (192 + ?n div 64)"
      by (simp add: utf8_char_def Let_def)
    with ma hi(1) [OF nb] have "?m = 192 + ?n div 64" by (blast intro: byte_of_nat_inj)
    with lh show ?thesis by simp
  next
    case hl
    with assms have "(of_nat (192 + ?m div 64) :: 8 word) = of_nat ?n"
      by (simp add: utf8_char_def Let_def)
    with nb hi(1) [OF ma] have "192 + ?m div 64 = ?n" by (blast intro: byte_of_nat_inj)
    with hl show ?thesis by simp
  next
    case hh
    with assms have e1: "(of_nat (192 + ?m div 64) :: 8 word) = of_nat (192 + ?n div 64)"
      and e2: "(of_nat (128 + ?m mod 64) :: 8 word) = of_nat (128 + ?n mod 64)"
      and xy: "xs = ys"
      by (simp_all add: utf8_char_def Let_def)
    from e1 hi(1) [OF ma] hi(1) [OF nb] have d: "192 + ?m div 64 = 192 + ?n div 64"
      by (blast intro: byte_of_nat_inj)
    from e2 hi(2) [OF ma] hi(2) [OF nb] have r: "128 + ?m mod 64 = 128 + ?n mod 64"
      by (blast intro: byte_of_nat_inj)
    from d r have "?m = ?n"
      by (metis add_left_cancel div_mult_mod_eq)
    with xy show ?thesis by simp
  qed
qed

lemma utf8_char_nonempty: "utf8_char c \<noteq> []"
  by (simp add: utf8_char_def Let_def)

lemma utf8_encode_inj: "utf8_encode s = utf8_encode t \<Longrightarrow> s = t"
proof (induction s arbitrary: t)
  case Nil
  then show ?case by (cases t) (simp_all add: utf8_encode_def utf8_char_nonempty)
next
  case (Cons a s)
  show ?case
  proof (cases t)
    case Nil
    with Cons.prems show ?thesis by (simp add: utf8_encode_def utf8_char_nonempty)
  next
    case (Cons b t')
    with Cons.prems have "utf8_char a @ utf8_encode s = utf8_char b @ utf8_encode t'"
      by (simp add: utf8_encode_def)
    then have "a = b \<and> utf8_encode s = utf8_encode t'" by (rule utf8_char_cancel)
    with Cons.IH Cons show ?thesis by simp
  qed
qed

lemma hash_content_inj:
  assumes "CHR ''|'' \<notin> set t1" and "CHR ''|'' \<notin> set t2"
    and "hash_content t1 b1 = hash_content t2 b2"
  shows "t1 = t2 \<and> b1 = b2"
proof -
  have tw: "takeWhile (\<lambda>c. c \<noteq> CHR ''|'') (hash_content t b) = t" if "CHR ''|'' \<notin> set t" for t b
    using that by (induction t) (auto simp: hash_content_def)
  from assms(3) have "takeWhile (\<lambda>c. c \<noteq> CHR ''|'') (hash_content t1 b1)
      = takeWhile (\<lambda>c. c \<noteq> CHR ''|'') (hash_content t2 b2)" by simp
  with tw [OF assms(1)] tw [OF assms(2)] have "t1 = t2" by simp
  with assms(3) show ?thesis by (simp add: hash_content_def)
qed

lemma compute_hash_same_content:
  "hash_content t1 b1 = hash_content t2 b2 \<Longrightarrow> compute_hash sha256 t1 b1 = compute_hash sha256 t2 b2"
  by (simp add: compute_hash_def)

lemma example_digest_inj: "inj example_digest"
proof -
  have "inj (\<lambda>b :: 8 word. (char_of (unat b) :: char))"
  proof (rule injI)
    fix x y :: "8 word"
    assume "(char_of (unat x) :: char) = char_of (unat y)"
    then have "(of_char (char_of (unat x) :: char) :: nat) = of_char (char_of (unat y) :: char)"
      by simp
    then have "unat x mod 256 = unat y mod 256" by simp
    moreover have "unat x < 256" using unsigned_less [of x] by simp
    moreover have "unat y < 256" using unsigned_less [of y] by simp
    ultimately have "unat x = unat y" by simp
    then show "x = y" by (simp add: word_unat_eq_iff)
  qed
  then have "inj (map (\<lambda>b :: 8 word. (char_of (unat b) :: char)))" by simp
  moreover have "example_digest = map (\<lambda>b :: 8 word. (char_of (unat b) :: char))"
    by (rule ext) (simp add: example_digest_def)
  ultimately show ?thesis by simp
qed

text \<open>
  The claim C2 as stated fails: two different pairs of title and body with the same
  concatenation \<open>title || body\<close> hand the same bytes to the digest function, so that their
  digests are equal whatever that function is (\<open>compute_hash_same_content\<close>), also for a
  digest function that has no collision at all.
\<close>

theorem compute_hash_collision:
  "(''a||b'', ''c'') \<noteq> (''a'', ''b||c'')
   \<and> utf8_encode (hash_content ''a||b'' ''c'') = utf8_encode (hash_content ''a'' ''b||c'')
   \<and> inj example_digest
   \<and> compute_hash example_digest ''a||b'' ''c'' = compute_hash example_digest ''a'' ''b||c''"
proof -
  have "hash_content ''a||b'' ''c'' = hash_content ''a'' ''b||c''"
    by (simp add: hash_content_def)
  then have "compute_hash example_digest ''a||b'' ''c'' = compute_hash example_digest ''a'' ''b||c''"
    by (rule compute_hash_same_content)
  with example_digest_inj show ?thesis by (simp add: hash_content_def)
qed

text \<open>
  C2 (amended). \<open>compute_hash\<close> is a function of the pair: the digest is that of the UTF-8
  bytes of the text \<open>title || body\<close> and of nothing else. When neither title contains the
  character \<open>|\<close>: under a digest function without collisions, two pairs have the same
  digest exactly when they are the same pair; and under any digest function, two different
  pairs with the same digest are a collision of the digest function itself, which was given
  different bytes for them.
\<close>

theorem compute_hash_inputs:
  assumes "CHR ''|'' \<notin> set t1" and "CHR ''|'' \<notin> set t2"
  shows "compute_hash sha256 t1 b1 = sha256 (utf8_encode (t1 @ ''||'' @ b1))
    \<and> (inj sha256 \<longrightarrow>
          (compute_hash sha256 t1 b1 = compute_hash sha256 t2 b2 \<longleftrightarrow> t1 = t2 \<and> b1 = b2))
    \<and> (compute_hash sha256 t1 b1 = compute_hash sha256 t2 b2 \<and> (t1, b1) \<noteq> (t2, b2) \<longrightarrow>
          utf8_encode (t1 @ ''||'' @ b1) \<noteq> utf8_encode (t2 @ ''||'' @ b2)
          \<and> sha256 (utf8_encode (t1 @ ''||'' @ b1)) = sha256 (utf8_encode (t2 @ ''||'' @ b2)))"
proof -
  have bytes: "t1 = t2 \<and> b1 = b2"
    if "utf8_encode (hash_content t1 b1) = utf8_encode (hash_content t2 b2)"
  proof -
    from that have "hash_content t1 b1 = hash_content t2 b2" by (rule utf8_encode_inj)
    with assms show ?thesis by (rule hash_content_inj)
  qed
  have one: "compute_hash sha256 t1 b1 = sha256 (utf8_encode (t1 @ ''||'' @ b1))"
    by (simp add: compute_hash_def hash_content_def)
  have two: "inj sha256 \<longrightarrow>
      (compute_hash sha256 t1 b1 = compute_hash sha256 t2 b2 \<longleftrightarrow> t1 = t2 \<and> b1 = b2)"
  proof
    assume i: "inj sha256"
    show "compute_hash sha256 t1 b1 = compute_hash sha256 t2 b2 \<longleftrightarrow> t1 = t2 \<and> b1 = b2"
    proof
      assume "compute_hash sha256 t1 b1 = compute_hash sha256 t2 b2"
      then have "sha256 (utf8_encode (hash_content t1 b1)) = sha256 (utf8_encode (hash_content t2 b2))"
        by (simp add: compute_hash_def)
      with i have "utf8_encode (hash_content t1 b1) = utf8_encode (hash_content t2 b2)"
        by (rule injD)
      then show "t1 = t2 \<and> b1 = b2" by (rule bytes)
    next
      assume "t1 = t2 \<and> b1 = b2"
      then show "compute_hash sha256 t1 b1 = compute_hash sha256 t2 b2" by simp
    qed
  qed
  have three: "compute_hash sha256 t1 b1 = compute_hash sha256 t2 b2 \<and> (t1, b1) \<noteq> (t2, b2) \<longrightarrow>
          utf8_encode (t1 @ ''||'' @ b1) \<noteq> utf8_encode (t2 @ ''||'' @ b2)
          \<and> sha256 (utf8_encode (t1 @ ''||'' @ b1)) = sha256 (utf8_encode (t2 @ ''||'' @ b2))"
  proof
    assume a: "compute_hash sha256 t1 b1 = compute_hash sha256 t2 b2 \<and> (t1, b1) \<noteq> (t2, b2)"
    then have e: "sha256 (utf8_encode (t1 @ ''||'' @ b1)) = sha256 (utf8_encode (t2 @ ''||'' @ b2))"
      by (simp add: compute_hash_def hash_content_def)
    have "utf8_encode (t1 @ ''||'' @ b1) \<noteq> utf8_encode (t2 @ ''||'' @ b2)"
    proof
      assume "utf8_encode (t1 @ ''||'' @ b1) = utf8_encode (t2 @ ''||'' @ b2)"
      then have "utf8_encode (hash_content t1 b1) = utf8_encode (hash_content t2 b2)"
        by (simp add: hash_content_def)
      then have "t1 = t2 \<and> b1 = b2" by (rule bytes)
      with a show False by simp
    qed
    with e show "utf8_encode (t1 @ ''||'' @ b1) \<noteq> utf8_encode (t2 @ ''||'' @ b2)
          \<and> sha256 (utf8_encode (t1 @ ''||'' @ b1)) = sha256 (utf8_encode (t2 @ ''||'' @ b2))"
      by blast
  qed
  from one two three show ?thesis by blast
qed

text \<open>
  The theorem at two digest functions: one without collisions, under which the two pairs
  \<open>(a, b||c)\<close> and \<open>(ab, ||c)\<close> have different digests, and the constant one, under which
  the equal digests of \<open>(a, b)\<close> and \<open>(a, c)\<close> are a collision on different bytes.
\<close>

theorem compute_hash_inputs_witness:
  "CHR ''|'' \<notin> set ''a'' \<and> CHR ''|'' \<notin> set ''ab'' \<and> inj example_digest
   \<and> (''a'', ''b||c'') \<noteq> (''ab'', ''||c'')
   \<and> compute_hash example_digest ''a'' ''b||c'' \<noteq> compute_hash example_digest ''ab'' ''||c''
   \<and> compute_hash (\<lambda>bytes. ''00'') ''a'' ''b'' = compute_hash (\<lambda>bytes. ''00'') ''a'' ''c''
   \<and> (''a'', ''b'') \<noteq> (''a'', ''c'')
   \<and> utf8_encode (''a'' @ ''||'' @ ''b'') \<noteq> utf8_encode (''a'' @ ''||'' @ ''c'')"
proof -
  have h1: "CHR ''|'' \<notin> set ''a''" and h2: "CHR ''|'' \<notin> set ''ab''" by simp_all
  have d: "(''a'', ''b||c'') \<noteq> (''ab'', ''||c'')" by simp
  from compute_hash_inputs [OF h1 h2, of example_digest "''b||c''" "''||c''"] example_digest_inj
  have "compute_hash example_digest ''a'' ''b||c'' = compute_hash example_digest ''ab'' ''||c''
      \<longleftrightarrow> ''a'' = ''ab'' \<and> ''b||c'' = ''||c''"
    by blast
  then have n: "compute_hash example_digest ''a'' ''b||c'' \<noteq> compute_hash example_digest ''ab'' ''||c''"
    by simp
  have c: "compute_hash (\<lambda>bytes. ''00'') ''a'' ''b'' = compute_hash (\<lambda>bytes. ''00'') ''a'' ''c''"
    by (simp add: compute_hash_def)
  have d': "(''a'', ''b'') \<noteq> (''a'', ''c'')" by simp
  from compute_hash_inputs [OF h1 h1, of "\<lambda>bytes. ''00''" "''b''" "''c''"] c d'
  have u: "utf8_encode (''a'' @ ''||'' @ ''b'') \<noteq> utf8_encode (''a'' @ ''||'' @ ''c'')"
    by blast
  from h1 h2 example_digest_inj d n c d' u show ?thesis by blast
qed

section \<open>What the helpers of the session leave unchanged\<close>

lemma notify_fields [simp]:
  "store (notify m v s) = store s" "mode (notify m v s) = mode s"
  "marked (notify m v s) = marked s" "editor_text (notify m v s) = editor_text s"
  "editing_note_id (notify m v s) = editing_note_id s"
  "original_body (notify m v s) = original_body s"
  "input_value (notify m v s) = input_value s"
  "crashed (notify m v s) = crashed s"
  by (simp_all add: notify_def)

lemma crash_fields [simp]:
  "store (crash e s) = store s" "mode (crash e s) = mode s"
  "marked (crash e s) = marked s" "editor_text (crash e s) = editor_text s"
  "editing_note_id (crash e s) = editing_note_id s"
  "original_body (crash e s) = original_body s"
  "input_value (crash e s) = input_value s"
  by (simp_all add: crash_def)

lemma refresh_results_fields [simp]:
  "store (refresh_results s) = store s" "mode (refresh_results s) = mode s"
  "marked (refresh_results s) = marked s" "editor_text (refresh_results s) = editor_text s"
  "editing_note_id (refresh_results s) = editing_note_id s"
  "original_body (refresh_results s) = original_body s"
  "input_value (refresh_results s) = input_value s"
  "crashed (refresh_results s) = crashed s"
  by (simp_all add: refresh_results_def set_items_def Let_def)

lemma refresh_search_fields:
  assumes "refresh_search text s = Inr s'"
  shows "store s' = store s" "mode s' = mode s"
    "marked s' = marked s" "editor_text s' = editor_text s"
    "editing_note_id s' = editing_note_id s"
    "original_body s' = original_body s"
    "input_value s' = input_value s"
    "crashed s' = crashed s"
  using assms by (auto simp: refresh_search_def split: sum.splits)

lemma or_crash_refresh_fields [simp]:
  "store (or_crash s (refresh_search text s)) = store s"
  "mode (or_crash s (refresh_search text s)) = mode s"
  "marked (or_crash s (refresh_search text s)) = marked s"
  "editor_text (or_crash s (refresh_search text s)) = editor_text s"
  "editing_note_id (or_crash s (refresh_search text s)) = editing_note_id s"
  "original_body (or_crash s (refresh_search text s)) = original_body s"
  "input_value (or_crash s (refresh_search text s)) = input_value s"
  by (cases "refresh_search text s"; simp add: or_crash_def refresh_search_fields)+

lemma enter_edit_frame [simp]:
  "store (enter_edit nid s) = store s" "marked (enter_edit nid s) = marked s"
  "crashed (enter_edit nid s) = crashed s"
  by (simp_all add: enter_edit_def split: option.splits prod.splits)

text \<open>A search with a blank query runs whatever the table holds.\<close>

lemma search_blank_runs:
  "search '''' lim st
     = Inr (map (\<lambda>n. (note_id n, snip n)) (sql_limit lim (order_by_updated_desc (rows st))))"
  by (simp add: search_def search_rows_def strip_def)

lemma refresh_search_blank: "\<exists>s'. refresh_search '''' s = Inr s'"
  by (simp add: refresh_search_def search_blank_runs)


lemma example_editing_fields:
  "mode example_editing = EDIT" "editor_text example_editing = Some ''draft''"
  "original_body example_editing = ''''" "store example_editing = example_store"
  by code_simp+

section \<open>Leaving EDIT with unsaved changes\<close>

text \<open>
  C7. In EDIT mode with an editor holding text \<open>t\<close>: when \<open>t\<close> differs from
  \<open>original_body\<close>, escape only adds the warning to the notifications, so the session stays
  in EDIT and the store, the editor text and the note being edited are unchanged; the session
  is in SEARCH after escape exactly when \<open>t\<close> equals \<open>original_body\<close>.
\<close>

theorem mode_back_refused_when_unsaved:
  assumes "mode s = EDIT" and "editor_text s = Some t"
  shows "(t \<noteq> original_body s \<longrightarrow>
            action_mode_back s = s\<lparr>notifications := notifications s @ [(Warning, Unsaved_changes)]\<rparr>)
       \<and> (mode (action_mode_back s) = SEARCH \<longleftrightarrow> t = original_body s)"
proof (cases "t = original_body s")
  case False
  with assms show ?thesis by (simp add: action_mode_back_def notify_def)
next
  case True
  let ?s1 = "s\<lparr>mode := SEARCH, editing_note_id := None, original_body := ''''\<rparr>"
  have "mode (action_mode_back s) = SEARCH"
  proof (cases "refresh_search (input_value s) ?s1")
    case (Inl e)
    with assms True show ?thesis by (simp add: action_mode_back_def Let_def)
  next
    case (Inr s2)
    then have "mode s2 = SEARCH" by (simp add: refresh_search_fields(2))
    with assms True Inr show ?thesis by (simp add: action_mode_back_def Let_def)
  qed
  with True show ?thesis by simp
qed

theorem mode_back_refused_when_unsaved_witness:
  "mode example_editing = EDIT
   \<and> editor_text example_editing = Some ''draft''
   \<and> ''draft'' \<noteq> original_body example_editing
   \<and> action_mode_back example_editing
       = example_editing\<lparr>notifications := notifications example_editing @ [(Warning, Unsaved_changes)]\<rparr>
   \<and> mode (action_mode_back example_editing) \<noteq> SEARCH
   \<and> store (action_mode_back example_editing) = example_store"
proof -
  have m: "mode example_editing = EDIT" and e: "editor_text example_editing = Some ''draft''"
    and o: "original_body example_editing = ''''" and st: "store example_editing = example_store"
    by (rule example_editing_fields)+
  have d: "''draft'' \<noteq> original_body example_editing" using o by simp
  from mode_back_refused_when_unsaved [OF m e] d
  have r: "action_mode_back example_editing
       = example_editing\<lparr>notifications := notifications example_editing @ [(Warning, Unsaved_changes)]\<rparr>"
    by blast
  from mode_back_refused_when_unsaved [OF m e] d
  have n: "mode (action_mode_back example_editing) \<noteq> SEARCH"
    by blast
  from r st have "store (action_mode_back example_editing) = example_store" by simp
  with m e d r n show ?thesis by blast
qed

section \<open>Saving an imported note\<close>

lemma update_row_id: "note_id (update_row t b now h nid n) = note_id n"
  by (simp add: update_row_def)

lemma update_row_clears:
  "\<forall>m \<in> set (map (update_row t b now None nid) ns). note_id m = nid \<longrightarrow> import_hash m = None"
proof
  fix m assume "m \<in> set (map (update_row t b now None nid) ns)"
  then obtain n where "m = update_row t b now None nid n" by auto
  then show "note_id m = nid \<longrightarrow> import_hash m = None"
    by (cases "note_id n = nid") (simp_all add: update_row_def)
qed

lemma update_row_drops_hash:
  assumes "\<forall>n \<in> set ns. import_hash n = Some h \<longrightarrow> note_id n = nid"
  shows "\<forall>m \<in> set (map (update_row t b now None nid) ns). import_hash m \<noteq> Some h"
proof
  fix m assume "m \<in> set (map (update_row t b now None nid) ns)"
  then obtain n where n: "n \<in> set ns" and m: "m = update_row t b now None nid n" by auto
  show "import_hash m \<noteq> Some h"
  proof (cases "note_id n = nid")
    case True
    with m show ?thesis by (simp add: update_row_def)
  next
    case False
    with assms n have "import_hash n \<noteq> Some h" by blast
    with False m show ?thesis by (simp add: update_row_def)
  qed
qed

lemma update_row_keeps:
  assumes "n \<in> set ns" and "note_id n = nid"
  shows "\<exists>m \<in> set (map (update_row t b now None nid) ns).
           note_id m = nid \<and> import_hash m = None \<and> body m = b \<and> title m = t
           \<and> created_at m = created_at n"
proof -
  let ?m = "update_row t b now None nid n"
  from assms(1) have "?m \<in> set (map (update_row t b now None nid) ns)" by simp
  moreover from assms(2) have "note_id ?m = nid \<and> import_hash ?m = None \<and> body ?m = b
      \<and> title ?m = t \<and> created_at ?m = created_at n"
    by (simp add: update_row_def)
  ultimately show ?thesis by blast
qed

lemma ids_of_update:
  "ids_of (st\<lparr>rows := map (update_row t b now h nid) (rows st)\<rparr>) = ids_of st"
  by (simp add: ids_of_def image_image update_row_id)

lemma save_edit_store:
  assumes "mode s = EDIT" and "editing_note_id s = Some nid" and "editor_text s = Some edited"
    and "nid \<in> ids_of (store s)" and "sqlite_int nid"
  shows "\<exists>t. store (action_save_edit now s)
           = (store s)\<lparr>rows := map (update_row t edited now None nid) (rows (store s))\<rparr>"
proof -
  from assms(4) have "get nid (store s) \<noteq> None" by (simp add: get_None_iff)
  then obtain i t b c u where g: "get nid (store s) = Some (i, t, b, c, u)"
    by (cases "get nid (store s)") auto
  with assms(1-3,5) have "store (action_save_edit now s)
      = (store s)\<lparr>rows := map (update_row t edited now None nid) (rows (store s))\<rparr>"
    by (simp add: action_save_edit_def upsert_def Let_def)
  then show ?thesis by blast
qed

text \<open>
  C10. A session is editing note \<open>nid\<close>, which holds the digest of a readable file \<open>p\<close> (its stem
  as title, its text as body) and is the only note that holds it, as is the case for a
  note that import created; its id is a value of SQLite, as every rowid is. After one save
  the note is still in the store, with the saved text as body and \<open>import_hash\<close> NULL, and
  the store has the same notes as before (the same ids, the same count);
  \<open>note_exists_by_hash\<close> of the digest is false; and importing the same file again is not
  skipped: it returns \<open>(1, 0, new_id)\<close> with an id other than that of the saved note, the
  store then holds one note more than before the save, the saved one and the new one, and
  the new note has the file's stem as title and its text as body.
\<close>

theorem save_forgets_import_hash:
  assumes "mode s = EDIT" and "editing_note_id s = Some nid" and "editor_text s = Some edited"
    and "read_text p = Some content"
    and "\<exists>n \<in> set (rows (store s)). note_id n = nid
            \<and> import_hash n = Some (compute_hash sha256 (import_title stem p) content)"
    and "\<forall>n \<in> set (rows (store s)).
            import_hash n = Some (compute_hash sha256 (import_title stem p) content) \<longrightarrow> note_id n = nid"
    and "sqlite_int nid"
  shows "(\<exists>n \<in> set (rows (store (action_save_edit now s))).
            note_id n = nid \<and> import_hash n = None \<and> body n = edited)
    \<and> (\<forall>n \<in> set (rows (store (action_save_edit now s))). note_id n = nid \<longrightarrow> import_hash n = None)
    \<and> ids_of (store (action_save_edit now s)) = ids_of (store s)
    \<and> count_notes (store (action_save_edit now s)) = count_notes (store s)
    \<and> \<not> note_exists_by_hash (compute_hash sha256 (import_title stem p) content)
          (store (action_save_edit now s))
    \<and> (\<exists>new_id st2.
          import_text_file sha256 now2 read_text stem p (store (action_save_edit now s))
            = Inr ((1, 0, Some new_id), st2)
          \<and> new_id \<notin> ids_of (store (action_save_edit now s))
          \<and> new_id \<noteq> nid
          \<and> count_notes st2 = count_notes (store (action_save_edit now s)) + 1
          \<and> count_notes st2 = count_notes (store s) + 1
          \<and> ids_of st2 = insert new_id (ids_of (store s))
          \<and> get new_id st2 = Some (new_id, import_title stem p, content, now2, now2))"
proof -
  let ?h = "compute_hash sha256 (import_title stem p) content"
  let ?st = "store (action_save_edit now s)"
  from assms(5) obtain n0 where n0: "n0 \<in> set (rows (store s))" "note_id n0 = nid" by blast
  then have known: "nid \<in> ids_of (store s)" unfolding ids_of_def by blast
  with assms(1-3,7) obtain t where
    st: "?st = (store s)\<lparr>rows := map (update_row t edited now None nid) (rows (store s))\<rparr>"
    using save_edit_store by blast
  then have r: "rows ?st = map (update_row t edited now None nid) (rows (store s))" by simp
  have kept: "\<exists>n \<in> set (rows ?st). note_id n = nid \<and> import_hash n = None \<and> body n = edited"
    unfolding r using update_row_keeps [OF n0, of t edited now] by blast
  have cleared: "\<forall>n \<in> set (rows ?st). note_id n = nid \<longrightarrow> import_hash n = None"
    unfolding r by (rule update_row_clears)
  have ids: "ids_of ?st = ids_of (store s)"
    unfolding st by (rule ids_of_update)
  have cnt0: "count_notes ?st = count_notes (store s)"
    by (simp add: count_notes_def r)
  have "\<forall>m \<in> set (rows ?st). import_hash m \<noteq> Some ?h"
    unfolding r using assms(6) by (rule update_row_drops_hash)
  then have gone: "\<not> note_exists_by_hash ?h ?st"
    unfolding note_exists_by_hash_iff by blast
  let ?st2 = "snd (projr (upsert now2 (import_title stem p) content None (Some ?h) ?st))"
  have again: "import_text_file sha256 now2 read_text stem p ?st =
      Inr ((1, 0, Some (next_rowid ?st)), ?st2)"
    using assms(4) gone by (rule import_new)
  have cnt: "count_notes ?st2 = count_notes ?st + 1"
    by (rule upsert_insert_store)
  have ids2: "ids_of ?st2 = insert (next_rowid ?st) (ids_of ?st)"
    by (rule upsert_insert_store)
  have g: "get (next_rowid ?st) ?st2 = Some (next_rowid ?st, import_title stem p, content, now2, now2)"
    by (rule upsert_insert_store)
  have fresh: "next_rowid ?st \<notin> ids_of ?st" by (rule next_rowid_fresh)
  with known ids have other: "next_rowid ?st \<noteq> nid" by auto
  from again fresh other cnt cnt0 ids2 ids g have "\<exists>new_id st2.
          import_text_file sha256 now2 read_text stem p ?st = Inr ((1, 0, Some new_id), st2)
          \<and> new_id \<notin> ids_of ?st
          \<and> new_id \<noteq> nid
          \<and> count_notes st2 = count_notes ?st + 1
          \<and> count_notes st2 = count_notes (store s) + 1
          \<and> ids_of st2 = insert new_id (ids_of (store s))
          \<and> get new_id st2 = Some (new_id, import_title stem p, content, now2, now2)"
    by auto
  with kept cleared ids cnt0 gone show ?thesis by blast
qed

lemma example_imported_editing_fields:
  "mode example_imported_editing = EDIT"
  "editing_note_id example_imported_editing = Some 1"
  "editor_text example_imported_editing = Some ''buy milk and eggs''"
  "rows (store example_imported_editing) =
     [\<lparr>note_id = 1, title = ''todo'', body = ''buy milk'',
       created_at = ''2026-11-04T09:01:00+00:00'', updated_at = ''2026-11-04T09:01:00+00:00'',
       import_hash = Some (compute_hash example_digest (import_title example_stem ''todo.txt'') ''buy milk'')\<rparr>]"
  by code_simp+

lemma example_saved:
  "get 1 (store (action_save_edit ''2026-11-04T09:03:00+00:00'' example_imported_editing))
     = Some (1, ''todo'', ''buy milk and eggs'', ''2026-11-04T09:01:00+00:00'', ''2026-11-04T09:03:00+00:00'')"
  "crashed (action_save_edit ''2026-11-04T09:03:00+00:00'' example_imported_editing) = None"
  by code_simp+

theorem save_forgets_import_hash_witness:
  "mode example_imported_editing = EDIT
   \<and> editing_note_id example_imported_editing = Some 1
   \<and> editor_text example_imported_editing = Some ''buy milk and eggs''
   \<and> example_read_text ''todo.txt'' = Some ''buy milk''
   \<and> sqlite_int 1
   \<and> get 1 (store (action_save_edit ''2026-11-04T09:03:00+00:00'' example_imported_editing))
       = Some (1, ''todo'', ''buy milk and eggs'', ''2026-11-04T09:01:00+00:00'', ''2026-11-04T09:03:00+00:00'')
   \<and> ids_of (store (action_save_edit ''2026-11-04T09:03:00+00:00'' example_imported_editing))
       = ids_of (store example_imported_editing)
   \<and> \<not> note_exists_by_hash
         (compute_hash example_digest (import_title example_stem ''todo.txt'') ''buy milk'')
         (store (action_save_edit ''2026-11-04T09:03:00+00:00'' example_imported_editing))
   \<and> (\<exists>new_id st2.
         import_text_file example_digest ''2026-11-04T09:04:00+00:00'' example_read_text example_stem
           ''todo.txt'' (store (action_save_edit ''2026-11-04T09:03:00+00:00'' example_imported_editing))
           = Inr ((1, 0, Some new_id), st2)
         \<and> new_id \<noteq> 1
         \<and> count_notes st2 = count_notes (store example_imported_editing) + 1
         \<and> ids_of st2 = insert new_id (ids_of (store example_imported_editing))
         \<and> get new_id st2 = Some (new_id, import_title example_stem ''todo.txt'', ''buy milk'',
              ''2026-11-04T09:04:00+00:00'', ''2026-11-04T09:04:00+00:00''))"
proof -
  let ?h = "compute_hash example_digest (import_title example_stem ''todo.txt'') ''buy milk''"
  have m: "mode example_imported_editing = EDIT"
    and e: "editing_note_id example_imported_editing = Some 1"
    and t: "editor_text example_imported_editing = Some ''buy milk and eggs''"
    by (rule example_imported_editing_fields)+
  have r: "example_read_text ''todo.txt'' = Some ''buy milk''"
    by (simp add: example_read_text_def)
  have i: "sqlite_int 1" by (simp add: sqlite_int_def)
  have ex: "\<exists>n \<in> set (rows (store example_imported_editing)). note_id n = 1 \<and> import_hash n = Some ?h"
    by (simp add: example_imported_editing_fields(4))
  have un: "\<forall>n \<in> set (rows (store example_imported_editing)). import_hash n = Some ?h \<longrightarrow> note_id n = 1"
    by (simp add: example_imported_editing_fields(4))
  note th = save_forgets_import_hash [where s = example_imported_editing and nid = 1
        and edited = "''buy milk and eggs''" and read_text = example_read_text
        and p = "''todo.txt''" and content = "''buy milk''" and ?sha256.0 = example_digest
        and stem = example_stem and now = "''2026-11-04T09:03:00+00:00''"
        and ?now2.0 = "''2026-11-04T09:04:00+00:00''", OF m e t r ex un i]
  from th have a: "ids_of (store (action_save_edit ''2026-11-04T09:03:00+00:00'' example_imported_editing))
       = ids_of (store example_imported_editing)" by blast
  from th have b: "\<not> note_exists_by_hash ?h
         (store (action_save_edit ''2026-11-04T09:03:00+00:00'' example_imported_editing))" by blast
  from th have c: "\<exists>new_id st2.
         import_text_file example_digest ''2026-11-04T09:04:00+00:00'' example_read_text example_stem
           ''todo.txt'' (store (action_save_edit ''2026-11-04T09:03:00+00:00'' example_imported_editing))
           = Inr ((1, 0, Some new_id), st2)
         \<and> new_id \<noteq> 1
         \<and> count_notes st2 = count_notes (store example_imported_editing) + 1
         \<and> ids_of st2 = insert new_id (ids_of (store example_imported_editing))
         \<and> get new_id st2 = Some (new_id, import_title example_stem ''todo.txt'', ''buy milk'',
              ''2026-11-04T09:04:00+00:00'', ''2026-11-04T09:04:00+00:00'')" by blast
  from m e t r i example_saved(1) a b c show ?thesis by blast
qed

section \<open>The marked set\<close>

lemma marked_mode_back: "marked (action_mode_back s) = marked s"
proof -
  let ?s1 = "s\<lparr>mode := SEARCH, editing_note_id := None, original_body := ''''\<rparr>"
  show ?thesis
  proof (cases "refresh_search (input_value s) ?s1")
    case (Inl e)
    then show ?thesis by (simp add: action_mode_back_def Let_def)
  next
    case (Inr s2)
    then have "marked s2 = marked s" by (simp add: refresh_search_fields(3))
    with Inr show ?thesis by (simp add: action_mode_back_def Let_def)
  qed
qed

lemma marked_open_or_edit: "marked (action_open_or_edit now s) = marked s"
proof -
  have new: "marked (case refresh_search q (s\<lparr>store := st'\<rparr>) of
                        Inl e \<Rightarrow> crash e (s\<lparr>store := st'\<rparr>)
                      | Inr s1 \<Rightarrow> enter_edit i s1) = marked s" for q st' i
    by (cases "refresh_search q (s\<lparr>store := st'\<rparr>)") (simp_all add: refresh_search_fields(3))
  show ?thesis
    by (simp add: action_open_or_edit_def Let_def new
          split: option.split list.split prod.split sum.split)
qed

lemma marked_export: "marked (action_export_notes d ts l out s) = marked s"
  by (simp add: action_export_notes_def Let_def split: prod.split fs_outcome.split)

lemma marked_cursor: "marked (action_cursor_down s) = marked s" "marked (action_cursor_up s) = marked s"
  by (simp_all add: action_cursor_down_def action_cursor_up_def)

lemma marked_save_edit: "marked (action_save_edit now s) = marked s"
  by (simp add: action_save_edit_def Let_def split: option.split prod.split sum.split)

lemma marked_run_command: "marked (run_command c s) = marked s"
  by (simp add: run_command_def Let_def)

lemma marked_input_changed: "marked (on_input_changed q (s\<lparr>input_value := q\<rparr>)) = marked s"
  by (simp add: on_input_changed_def)

lemma marked_input_submitted: "marked (on_input_submitted now s) = marked s"
  by (simp add: on_input_submitted_def Let_def marked_run_command marked_open_or_edit)

lemma marked_list_view_selected: "marked (on_list_view_selected s) = marked s"
  by (simp add: on_list_view_selected_def split: option.split)

lemma marked_step_other:
  assumes "\<not> mark_operation a" and "\<not> is_import a"
  shows "marked (step sha256 read_text stem a s) = marked s"
  using assms
  by (cases a)
     (simp_all add: step_def marked_mode_back marked_open_or_edit marked_export marked_cursor
        marked_save_edit marked_input_changed marked_input_submitted marked_list_view_selected)

lemma store_mark_actions:
  "store (action_toggle_mark s) = store s"
  "store (action_mark_all s) = store s"
  "store (action_clear_all_marks s) = store s"
  by (simp_all add: action_toggle_mark_def action_mark_all_def action_clear_all_marks_def Let_def
        split: option.split)

lemma store_browse: "store (action_toggle_browse_mode keys s) = store s"
  by (simp add: action_toggle_browse_mode_def Let_def split: prod.split option.split)

lemma browse_step_no_marking:
  "\<not> marking_key k \<Longrightarrow> marked_set (fst (browse_step k b)) = marked_set b"
  by (cases k) (simp_all add: browse_step_def marking_key_def split: option.split)

lemma browse_run_no_marking:
  "\<forall>k \<in> set keys. \<not> marking_key k \<Longrightarrow> marked_set (fst (browse_run keys b)) = marked_set b"
proof (induction keys arbitrary: b)
  case Nil
  then show ?case by simp
next
  case (Cons k keys)
  then have k: "\<not> marking_key k" and rest: "\<forall>k \<in> set keys. \<not> marking_key k" by simp_all
  obtain b' r where st: "browse_step k b = (b', r)" by (cases "browse_step k b")
  with browse_step_no_marking [OF k, of b] have b': "marked_set b' = marked_set b" by simp
  show ?case
  proof (cases r)
    case None
    with st Cons.IH [OF rest, of b'] b' show ?thesis by simp
  next
    case (Some x)
    with st b' show ?thesis by simp
  qed
qed

lemma marked_browse_no_marking:
  assumes "\<forall>k \<in> set keys. \<not> marking_key k"
  shows "marked (action_toggle_browse_mode keys s) = marked s"
proof -
  have m: "marked_set (fst (browse_run keys (browse_mount (store s) (marked s)))) = marked s"
    using browse_run_no_marking [OF assms] by (simp add: browse_mount_def)
  obtain b r where br: "browse_run keys (browse_mount (store s) (marked s)) = (b, r)"
    by (cases "browse_run keys (browse_mount (store s) (marked s))")
  with m have "marked_set b = marked s" by simp
  with br show ?thesis
    by (simp add: action_toggle_browse_mode_def Let_def split: option.split)
qed

lemma import_text_file_ids:
  assumes "import_text_file sha256 now read_text stem p st = Inr ((imp, skip, nid), st')"
  shows "(nid = None \<and> st' = st)
       \<or> (\<exists>i. nid = Some i \<and> i \<notin> ids_of st \<and> ids_of st' = insert i (ids_of st))"
proof (cases "read_text p")
  case None
  with assms show ?thesis by (simp add: import_text_file_def)
next
  case (Some content)
  let ?h = "compute_hash sha256 (import_title stem p) content"
  show ?thesis
  proof (cases "note_exists_by_hash ?h st")
    case True
    with Some assms show ?thesis by (simp add: import_text_file_def Let_def)
  next
    case False
    with Some have "import_text_file sha256 now read_text stem p st =
        Inr ((1, 0, Some (next_rowid st)),
             snd (projr (upsert now (import_title stem p) content None (Some ?h) st)))"
      by (rule import_new)
    with assms have nid: "nid = Some (next_rowid st)"
      and st': "st' = snd (projr (upsert now (import_title stem p) content None (Some ?h) st))"
      by simp_all
    have "ids_of st' = insert (next_rowid st) (ids_of st)"
      unfolding st' by (rule upsert_insert_store)
    with nid next_rowid_fresh [of st] show ?thesis by blast
  qed
qed

text \<open>
  When every file of an import is read, the ids the loop has collected are those of the
  notes the import created: the ids the store has gained.
\<close>

lemma import_files_ids:
  assumes "import_files sha256 read_text stem ps st (a, b, ids0) = (st', Inr (a', b', ids))"
  shows "ids_of st \<subseteq> ids_of st' \<and> set ids = set ids0 \<union> (ids_of st' - ids_of st)"
  using assms
proof (induction ps arbitrary: st a b ids0)
  case Nil
  then show ?case by simp
next
  case (Cons x ps)
  obtain p now where x: "x = (p, now)" by (cases x)
  show ?case
  proof (cases "import_text_file sha256 now read_text stem p st")
    case (Inl e)
    with Cons.prems x show ?thesis by simp
  next
    case (Inr r)
    obtain imp skip nid st1 where r: "r = ((imp, skip, nid), st1)" by (cases r) auto
    let ?ids1 = "case nid of None \<Rightarrow> ids0 | Some i \<Rightarrow> ids0 @ [i]"
    from Cons.prems x Inr r
    have rec: "import_files sha256 read_text stem ps st1 (a + imp, b + skip, ?ids1)
        = (st', Inr (a', b', ids))" by simp
    from Cons.IH [OF rec]
    have ih: "ids_of st1 \<subseteq> ids_of st'" "set ids = set ?ids1 \<union> (ids_of st' - ids_of st1)"
      by simp_all
    from Inr r import_text_file_ids [of sha256 now read_text stem p st imp skip nid st1]
    consider (dup) "nid = None" "st1 = st"
      | (new) i where "nid = Some i" "i \<notin> ids_of st" "ids_of st1 = insert i (ids_of st)"
      by auto
    then show ?thesis
    proof cases
      case dup
      with ih show ?thesis by simp
    next
      case new
      with ih show ?thesis by auto
    qed
  qed
qed

lemma do_import_read:
  assumes "ps \<noteq> []"
    and "import_files sha256 read_text stem ps (store s) (0, 0, []) = (st', Inr (imported, skipped, ids))"
  shows "marked (do_import sha256 read_text stem (Some ps) s) = marked s \<union> (ids_of st' - ids_of (store s))"
    and "store (do_import sha256 read_text stem (Some ps) s) = st'"
proof -
  let ?s1 = "s\<lparr>store := st', marked := marked s \<union> set ids, input_value := ''''\<rparr>"
  from assms(2) import_files_ids [of sha256 read_text stem ps "store s" 0 0 "[]" st' imported skipped ids]
  have ids: "set ids = ids_of st' - ids_of (store s)" by simp
  obtain s2 where s2: "refresh_search '''' ?s1 = Inr s2"
    using refresh_search_blank by blast
  then have f: "marked s2 = marked s \<union> set ids" "store s2 = st'"
    by (simp_all add: refresh_search_fields)
  from assms s2 f have "marked (do_import sha256 read_text stem (Some ps) s) = marked s \<union> set ids"
    by (simp add: do_import_def Let_def)
  with ids show "marked (do_import sha256 read_text stem (Some ps) s)
      = marked s \<union> (ids_of st' - ids_of (store s))" by simp
  from assms s2 f show "store (do_import sha256 read_text stem (Some ps) s) = st'"
    by (simp add: do_import_def Let_def)
qed

lemma do_import_failed:
  assumes "import_files sha256 read_text stem ps (store s) (0, 0, []) = (st', Inl e)"
  shows "marked (do_import sha256 read_text stem (Some ps) s) = marked s"
    and "ps \<noteq> [] \<Longrightarrow> store (do_import sha256 read_text stem (Some ps) s) = st'"
  using assms by (simp_all add: do_import_def)

lemma do_import_cancelled:
  "marked (do_import sha256 read_text stem None s) = marked s"
  "marked (do_import sha256 read_text stem (Some []) s) = marked s"
  by (simp_all add: do_import_def)

lemma marked_do_import:
  "marked s \<subseteq> marked (do_import sha256 read_text stem result s)
   \<and> marked (do_import sha256 read_text stem result s) - marked s
       \<subseteq> ids_of (store (do_import sha256 read_text stem result s)) - ids_of (store s)"
proof (cases result)
  case None
  then show ?thesis by (simp add: do_import_cancelled)
next
  case (Some ps)
  show ?thesis
  proof (cases "ps = []")
    case True
    with Some show ?thesis by (simp add: do_import_cancelled)
  next
    case False
    obtain st' res where f: "import_files sha256 read_text stem ps (store s) (0, 0, []) = (st', res)"
      by (cases "import_files sha256 read_text stem ps (store s) (0, 0, [])")
    show ?thesis
    proof (cases res)
      case (Inl e)
      with f have "marked (do_import sha256 read_text stem (Some ps) s) = marked s"
        by (simp add: do_import_failed(1))
      with Some show ?thesis by simp
    next
      case (Inr t)
      obtain a b ids where t: "t = (a, b, ids)" by (cases t)
      from f Inr t have f': "import_files sha256 read_text stem ps (store s) (0, 0, [])
          = (st', Inr (a, b, ids))" by simp
      from do_import_read [OF False f'] Some show ?thesis by auto
    qed
  qed
qed

text \<open>
  The claim C9 as stated fails: import is not a mark operation, and it marks the note it
  creates.
\<close>

theorem import_marks_new_notes:
  "\<not> mark_operation (ImportNotes (Some [(''todo.txt'', ''2026-11-04T09:01:00+00:00'')]) :: string action)
   \<and> marked (on_mount True empty_store) = {}
   \<and> marked (step example_digest example_read_text example_stem
               (ImportNotes (Some [(''todo.txt'', ''2026-11-04T09:01:00+00:00'')]))
               (on_mount True empty_store)) = {1}"
proof -
  have a: "\<not> mark_operation (ImportNotes (Some [(''todo.txt'', ''2026-11-04T09:01:00+00:00'')]) :: string action)"
    by simp
  have b: "marked (on_mount True empty_store) = {}"
    by code_simp
  have c: "marked (step example_digest example_read_text example_stem
               (ImportNotes (Some [(''todo.txt'', ''2026-11-04T09:01:00+00:00'')]))
               (on_mount True empty_store)) = {1}"
    by code_simp
  from a b c show ?thesis by blast
qed

text \<open>
  C9 (amended). A refresh of the search leaves the marked set as it is, whatever the query.
  An action that is neither a mark operation nor an import leaves it as it is; so does a
  visit of the Browse screen in which no marking key is pressed. An import keeps every
  mark and adds only ids of notes that it created: when it has read every file, it adds
  the ids of all the notes it created; when it is cancelled, or fails at one of its files
  (the notes created before that file stay in the store), it changes no mark. The mark
  operations (toggle, mark all, clear, and the Browse screen) leave the store as it is.
\<close>

theorem marked_set_changes:
  "(\<forall>s'. refresh_search q s = Inr s' \<longrightarrow> marked s' = marked s)
   \<and> (\<not> mark_operation a \<and> \<not> is_import a \<longrightarrow> marked (step sha256 read_text stem a s) = marked s)
   \<and> ((\<forall>k \<in> set keys. \<not> marking_key k) \<longrightarrow> marked (action_toggle_browse_mode keys s) = marked s)
   \<and> marked s \<subseteq> marked (do_import sha256 read_text stem result s)
   \<and> marked (do_import sha256 read_text stem result s) - marked s
        \<subseteq> ids_of (store (do_import sha256 read_text stem result s)) - ids_of (store s)
   \<and> (\<forall>st' imported skipped ids.
         ps \<noteq> [] \<and> import_files sha256 read_text stem ps (store s) (0, 0, [])
                      = (st', Inr (imported, skipped, ids)) \<longrightarrow>
         store (do_import sha256 read_text stem (Some ps) s) = st'
         \<and> marked (do_import sha256 read_text stem (Some ps) s)
             = marked s \<union> (ids_of st' - ids_of (store s)))
   \<and> (\<forall>st' e.
         ps \<noteq> [] \<and> import_files sha256 read_text stem ps (store s) (0, 0, []) = (st', Inl e) \<longrightarrow>
         store (do_import sha256 read_text stem (Some ps) s) = st'
         \<and> marked (do_import sha256 read_text stem (Some ps) s) = marked s)
   \<and> marked (do_import sha256 read_text stem None s) = marked s
   \<and> marked (do_import sha256 read_text stem (Some []) s) = marked s
   \<and> store (action_toggle_mark s) = store s
   \<and> store (action_mark_all s) = store s
   \<and> store (action_clear_all_marks s) = store s
   \<and> store (action_toggle_browse_mode keys s) = store s"
proof -
  have r: "\<forall>s'. refresh_search q s = Inr s' \<longrightarrow> marked s' = marked s"
    by (simp add: refresh_search_fields(3))
  have i1: "\<forall>st' imported skipped ids.
         ps \<noteq> [] \<and> import_files sha256 read_text stem ps (store s) (0, 0, [])
                      = (st', Inr (imported, skipped, ids)) \<longrightarrow>
         store (do_import sha256 read_text stem (Some ps) s) = st'
         \<and> marked (do_import sha256 read_text stem (Some ps) s)
             = marked s \<union> (ids_of st' - ids_of (store s))"
    using do_import_read [of ps sha256 read_text stem s] by blast
  have i2: "\<forall>st' e.
         ps \<noteq> [] \<and> import_files sha256 read_text stem ps (store s) (0, 0, []) = (st', Inl e) \<longrightarrow>
         store (do_import sha256 read_text stem (Some ps) s) = st'
         \<and> marked (do_import sha256 read_text stem (Some ps) s) = marked s"
    using do_import_failed [of sha256 read_text stem ps s] by blast
  from r i1 i2 marked_step_other [of a sha256 read_text stem s] marked_browse_no_marking [of keys s]
    marked_do_import [of s sha256 read_text stem result] store_mark_actions [of s]
    store_browse [of keys s] do_import_cancelled [of sha256 read_text stem s]
  show ?thesis by blast
qed

lemma example_marked_fields:
  "marked example_marked = {1}"
  "matches (step example_digest example_read_text example_stem (InputChanged ''zzz'') example_marked) = []"
  "crashed (step example_digest example_read_text example_stem (InputChanged ''zzz'') example_marked) = None"
  "store example_marked = example_store"
  by code_simp+

text \<open>
  Two imports into the session that has marked note 1: of one readable file, and of that
  file followed by one that cannot be read.
\<close>

lemma example_imports:
  "snd (import_files example_digest example_read_text example_stem
          [(''todo.txt'', ''2026-11-04T09:05:00+00:00'')] (store example_marked) (0, 0, []))
     = Inr (1, 0, [2])"
  "map note_id (rows (fst (import_files example_digest example_read_text example_stem
          [(''todo.txt'', ''2026-11-04T09:05:00+00:00'')] (store example_marked) (0, 0, [])))) = [1, 2]"
  "snd (import_files example_digest example_read_text example_stem
          [(''todo.txt'', ''2026-11-04T09:05:00+00:00''), (''gone.txt'', ''2026-11-04T09:05:01+00:00'')]
          (store example_marked) (0, 0, []))
     = Inl OSError"
  "map note_id (rows (fst (import_files example_digest example_read_text example_stem
          [(''todo.txt'', ''2026-11-04T09:05:00+00:00''), (''gone.txt'', ''2026-11-04T09:05:01+00:00'')]
          (store example_marked) (0, 0, [])))) = [1, 2]"
  "map note_id (rows (store example_marked)) = [1]"
  by code_simp+

theorem marked_set_changes_witness:
  "\<not> mark_operation (InputChanged ''zzz'' :: string action)
   \<and> \<not> is_import (InputChanged ''zzz'' :: string action)
   \<and> marked example_marked = {1}
   \<and> matches (step example_digest example_read_text example_stem (InputChanged ''zzz'') example_marked) = []
   \<and> marked (step example_digest example_read_text example_stem (InputChanged ''zzz'') example_marked) = {1}
   \<and> \<not> marking_key BCursorDown \<and> \<not> marking_key BCancel
   \<and> marked (action_toggle_browse_mode [BCursorDown, BCancel] example_marked) = {1}
   \<and> ids_of (store example_marked) = {1}
   \<and> ids_of (store (do_import example_digest example_read_text example_stem
        (Some [(''todo.txt'', ''2026-11-04T09:05:00+00:00'')]) example_marked)) = {1, 2}
   \<and> marked (do_import example_digest example_read_text example_stem
        (Some [(''todo.txt'', ''2026-11-04T09:05:00+00:00'')]) example_marked) = {1, 2}
   \<and> ids_of (store (do_import example_digest example_read_text example_stem
        (Some [(''todo.txt'', ''2026-11-04T09:05:00+00:00''), (''gone.txt'', ''2026-11-04T09:05:01+00:00'')])
        example_marked)) = {1, 2}
   \<and> marked (do_import example_digest example_read_text example_stem
        (Some [(''todo.txt'', ''2026-11-04T09:05:00+00:00''), (''gone.txt'', ''2026-11-04T09:05:01+00:00'')])
        example_marked) = {1}"
proof -
  let ?one = "[(''todo.txt'', ''2026-11-04T09:05:00+00:00'')]"
  let ?two = "[(''todo.txt'', ''2026-11-04T09:05:00+00:00''), (''gone.txt'', ''2026-11-04T09:05:01+00:00'')]"
  let ?f1 = "import_files example_digest example_read_text example_stem ?one (store example_marked) (0, 0, [])"
  let ?f2 = "import_files example_digest example_read_text example_stem ?two (store example_marked) (0, 0, [])"
  have k: "\<forall>k \<in> set [BCursorDown, BCancel]. \<not> marking_key k"
    by (simp add: marking_key_def)
  have a: "\<not> mark_operation (InputChanged ''zzz'' :: string action)
      \<and> \<not> is_import (InputChanged ''zzz'' :: string action)" by simp
  note t = marked_set_changes [where a = "InputChanged ''zzz'' :: string action" and s = example_marked
      and keys = "[BCursorDown, BCancel]" and ?sha256.0 = example_digest
      and read_text = example_read_text and stem = example_stem]
  from t [of _ _ ?one] a example_marked_fields(1)
  have c1: "marked (step example_digest example_read_text example_stem (InputChanged ''zzz'') example_marked) = {1}"
    by simp
  from t [of _ _ ?one] k example_marked_fields(1)
  have c2: "marked (action_toggle_browse_mode [BCursorDown, BCancel] example_marked) = {1}"
    by simp
  have i0: "ids_of (store example_marked) = {1}"
    using example_imports(5) by (simp add: ids_of_def flip: set_map)
  have e1: "?f1 = (fst ?f1, Inr (1, 0, [2]))"
    using example_imports(1) by (simp add: prod_eq_iff)
  have j1: "ids_of (fst ?f1) = {1, 2}"
    using example_imports(2) by (simp add: ids_of_def flip: set_map)
  have e2: "?f2 = (fst ?f2, Inl OSError)"
    using example_imports(3) by (simp add: prod_eq_iff)
  have j2: "ids_of (fst ?f2) = {1, 2}"
    using example_imports(4) by (simp add: ids_of_def flip: set_map)
  have n1: "?one \<noteq> []" and n2: "?two \<noteq> []" by simp_all
  from t [of _ _ ?one] n1 e1
  have r1: "store (do_import example_digest example_read_text example_stem (Some ?one) example_marked) = fst ?f1
      \<and> marked (do_import example_digest example_read_text example_stem (Some ?one) example_marked)
          = marked example_marked \<union> (ids_of (fst ?f1) - ids_of (store example_marked))"
    by blast
  from t [of _ _ ?two] n2 e2
  have r2: "store (do_import example_digest example_read_text example_stem (Some ?two) example_marked) = fst ?f2
      \<and> marked (do_import example_digest example_read_text example_stem (Some ?two) example_marked)
          = marked example_marked"
    by blast
  from r1 j1 i0 example_marked_fields(1)
  have d1: "ids_of (store (do_import example_digest example_read_text example_stem (Some ?one) example_marked)) = {1, 2}"
    and d2: "marked (do_import example_digest example_read_text example_stem (Some ?one) example_marked) = {1, 2}"
    by auto
  from r2 j2 example_marked_fields(1)
  have d3: "ids_of (store (do_import example_digest example_read_text example_stem (Some ?two) example_marked)) = {1, 2}"
    and d4: "marked (do_import example_digest example_read_text example_stem (Some ?two) example_marked) = {1}"
    by auto
  have mk: "\<not> marking_key BCursorDown \<and> \<not> marking_key BCancel" by (simp add: marking_key_def)
  from a example_marked_fields(1,2) c1 mk c2 i0 d1 d2 d3 d4 show ?thesis by blast
qed

section \<open>Search: order and limit\<close>

lemma dropWhile_all_iff:
  "(\<forall>c \<in> set (dropWhile P s). P c) \<longleftrightarrow> dropWhile P s = []"
  by (metis hd_dropWhile list.set_sel(1) empty_iff list.set(1))

lemma strip_empty_iff: "strip s = [] \<longleftrightarrow> (\<forall>c \<in> set s. isspace c)"
proof -
  have "strip s = [] \<longleftrightarrow> (\<forall>c \<in> set (dropWhile isspace s). isspace c)"
    by (simp add: strip_def)
  also have "\<dots> \<longleftrightarrow> dropWhile isspace s = []" by (rule dropWhile_all_iff)
  also have "\<dots> \<longleftrightarrow> (\<forall>c \<in> set s. isspace c)" by simp
  finally show ?thesis .
qed

lemma mset_order_by: "mset (order_by_updated_desc ns) = mset ns"
  by (simp add: order_by_updated_desc_def)

lemma newest_first_order_by: "newest_first (order_by_updated_desc ns)"
proof -
  have "sorted (map updated_at (sort_key updated_at (rev ns)))" by simp
  then have "sorted_wrt (\<lambda>a b. updated_at a \<le> updated_at b) (sort_key updated_at (rev ns))"
    by (simp add: sorted_map)
  then show ?thesis
    by (simp add: newest_first_def order_by_updated_desc_def sorted_wrt_rev)
qed

lemma newest_first_limit: "newest_first ns \<Longrightarrow> newest_first (sql_limit lim ns)"
  by (simp add: newest_first_def sql_limit_def sorted_wrt_take)

lemma length_limit: "length (sql_limit lim ns) = limited_length lim (length ns)"
  by (simp add: sql_limit_def limited_length_def min.commute)

lemma most_recent_take:
  assumes "newest_first ns"
  shows "most_recent_of (take k ns) ns"
proof -
  have split: "ns = take k ns @ drop k ns" by simp
  have rest: "mset ns - mset (take k ns) = mset (drop k ns)"
    by (metis add_diff_cancel_left' append_take_drop_id mset_append)
  from assms have "sorted_wrt (\<lambda>a b. updated_at b \<le> updated_at a) (take k ns @ drop k ns)"
    by (simp add: newest_first_def)
  then have "\<forall>n \<in> set (take k ns). \<forall>m \<in> set (drop k ns). updated_at m \<le> updated_at n"
    unfolding sorted_wrt_append by blast
  then have "\<forall>m \<in># mset ns - mset (take k ns). \<forall>n \<in> set (take k ns). updated_at m \<le> updated_at n"
    unfolding rest by auto
  moreover have "mset (take k ns) \<subseteq># mset ns"
    by (metis append_take_drop_id mset_append mset_subset_eq_add_left)
  ultimately show ?thesis by (simp add: most_recent_of_def)
qed

lemma most_recent_limit:
  assumes "newest_first ns"
  shows "most_recent_of (sql_limit lim ns) ns"
proof (cases "lim < 0")
  case True
  then show ?thesis by (simp add: sql_limit_def most_recent_of_def)
next
  case False
  with most_recent_take [OF assms] show ?thesis by (simp add: sql_limit_def)
qed

lemma most_recent_of_mset:
  "mset xs = mset xs' \<Longrightarrow> most_recent_of ys xs \<Longrightarrow> most_recent_of ys xs'"
  by (simp add: most_recent_of_def)

lemma select_ordered_limited:
  "newest_first (sql_limit lim (order_by_updated_desc ns))
   \<and> most_recent_of (sql_limit lim (order_by_updated_desc ns)) ns
   \<and> length (sql_limit lim (order_by_updated_desc ns)) = limited_length lim (length ns)"
proof -
  have n: "newest_first (order_by_updated_desc ns)" by (rule newest_first_order_by)
  have "most_recent_of (sql_limit lim (order_by_updated_desc ns)) (order_by_updated_desc ns)"
    using n by (rule most_recent_limit)
  then have m: "most_recent_of (sql_limit lim (order_by_updated_desc ns)) ns"
    using mset_order_by [of ns] most_recent_of_mset by blast
  have l: "length (sql_limit lim (order_by_updated_desc ns)) = limited_length lim (length ns)"
    using length_limit [of lim "order_by_updated_desc ns"]
    by (simp add: order_by_updated_desc_def)
  from newest_first_limit [OF n] m l show ?thesis by blast
qed





section \<open>Search: the LIKE pattern\<close>

lemma like_percent_any: "like ''%'' s"
  by (induction s) simp_all

lemma like_plain_prefix:
  assumes "plain p"
  shows "like (p @ ''%'') s \<longleftrightarrow>
           (\<exists>pre post. s = pre @ post \<and> map sql_lower_char pre = map sql_lower_char p)"
  using assms
proof (induction p arbitrary: s)
  case Nil
  have l: "like ([] @ ''%'') s" unfolding append_Nil by (rule like_percent_any)
  have r: "\<exists>pre post. s = pre @ post \<and> map sql_lower_char pre = map sql_lower_char []" by simp
  from l r show ?case by blast
next
  case (Cons a p)
  then have a: "a \<noteq> CHR ''%''" "a \<noteq> CHR ''_''" and p: "plain p" by (auto simp: plain_def)
  show ?case
  proof (cases s)
    case Nil
    with a show ?thesis by simp
  next
    case (Cons c r)
    have "like ((a # p) @ ''%'') (c # r) \<longleftrightarrow> sql_lower_char a = sql_lower_char c \<and> like (p @ ''%'') r"
      using a by simp
    also have "\<dots> \<longleftrightarrow> sql_lower_char a = sql_lower_char c
        \<and> (\<exists>pre post. r = pre @ post \<and> map sql_lower_char pre = map sql_lower_char p)"
      using Cons.IH [OF p] by simp
    also have "\<dots> \<longleftrightarrow> (\<exists>pre post. c # r = pre @ post
        \<and> map sql_lower_char pre = map sql_lower_char (a # p))"
    proof
      assume "sql_lower_char a = sql_lower_char c
        \<and> (\<exists>pre post. r = pre @ post \<and> map sql_lower_char pre = map sql_lower_char p)"
      then obtain pre post where "sql_lower_char a = sql_lower_char c" "r = pre @ post"
        "map sql_lower_char pre = map sql_lower_char p" by blast
      then have "c # r = (c # pre) @ post \<and> map sql_lower_char (c # pre) = map sql_lower_char (a # p)"
        by simp
      then show "\<exists>pre post. c # r = pre @ post \<and> map sql_lower_char pre = map sql_lower_char (a # p)"
        by blast
    next
      assume "\<exists>pre post. c # r = pre @ post \<and> map sql_lower_char pre = map sql_lower_char (a # p)"
      then obtain pre post where e: "c # r = pre @ post"
        and m: "map sql_lower_char pre = map sql_lower_char (a # p)" by blast
      from m obtain x pre' where pre: "pre = x # pre'" by (cases pre) auto
      with e m have "x = c" "r = pre' @ post" "sql_lower_char c = sql_lower_char a"
        "map sql_lower_char pre' = map sql_lower_char p" by simp_all
      then show "sql_lower_char a = sql_lower_char c
        \<and> (\<exists>pre post. r = pre @ post \<and> map sql_lower_char pre = map sql_lower_char p)"
        by auto
    qed
    finally show ?thesis using Cons by simp
  qed
qed

lemma like_percent_suffix:
  "like (CHR ''%'' # ps) s \<longleftrightarrow> (\<exists>pre r. s = pre @ r \<and> like ps r)"
proof (induction s)
  case Nil
  then show ?case by simp
next
  case (Cons c s)
  have "like (CHR ''%'' # ps) (c # s) \<longleftrightarrow> like ps (c # s) \<or> like (CHR ''%'' # ps) s" by simp
  also have "\<dots> \<longleftrightarrow> like ps (c # s) \<or> (\<exists>pre r. s = pre @ r \<and> like ps r)"
    using Cons.IH by simp
  also have "\<dots> \<longleftrightarrow> (\<exists>pre r. c # s = pre @ r \<and> like ps r)"
  proof
    assume "like ps (c # s) \<or> (\<exists>pre r. s = pre @ r \<and> like ps r)"
    then show "\<exists>pre r. c # s = pre @ r \<and> like ps r"
    proof
      assume "like ps (c # s)"
      then have "c # s = [] @ (c # s) \<and> like ps (c # s)" by simp
      then show ?thesis by blast
    next
      assume "\<exists>pre r. s = pre @ r \<and> like ps r"
      then obtain pre r where "s = pre @ r" "like ps r" by blast
      then have "c # s = (c # pre) @ r \<and> like ps r" by simp
      then show ?thesis by blast
    qed
  next
    assume "\<exists>pre r. c # s = pre @ r \<and> like ps r"
    then obtain pre r where e: "c # s = pre @ r" and l: "like ps r" by blast
    show "like ps (c # s) \<or> (\<exists>pre r. s = pre @ r \<and> like ps r)"
    proof (cases pre)
      case Nil
      with e l show ?thesis by simp
    next
      case (Cons x pre')
      with e have "s = pre' @ r" by simp
      with l show ?thesis by blast
    qed
  qed
  finally show ?case .
qed

lemma like_contains:
  assumes "plain p"
  shows "like (''%'' @ p @ ''%'') s \<longleftrightarrow>
           (\<exists>a mid b. s = a @ mid @ b \<and> map sql_lower_char mid = map sql_lower_char p)"
proof -
  have "like (''%'' @ p @ ''%'') s \<longleftrightarrow> (\<exists>a r. s = a @ r \<and> like (p @ ''%'') r)"
    using like_percent_suffix [of "p @ ''%''" s] by simp
  also have "\<dots> \<longleftrightarrow> (\<exists>a r. s = a @ r
      \<and> (\<exists>mid b. r = mid @ b \<and> map sql_lower_char mid = map sql_lower_char p))"
    using like_plain_prefix [OF assms] by simp
  also have "\<dots> \<longleftrightarrow> (\<exists>a mid b. s = a @ mid @ b \<and> map sql_lower_char mid = map sql_lower_char p)"
    by blast
  finally show ?thesis .
qed

lemma sql_lower_char_idem: "sql_lower_char (sql_lower_char c) = sql_lower_char c"
  by (simp add: sql_lower_char_def Let_def)

lemma sql_lower_char_cases:
  "sql_lower_char c = c
   \<or> (97 \<le> (of_char (sql_lower_char c) :: nat) \<and> (of_char (sql_lower_char c) :: nat) \<le> 122)"
proof (cases "65 \<le> (of_char c :: nat) \<and> (of_char c :: nat) \<le> 90")
  case True
  then have "(of_char c + 32) mod 256 = (of_char c + 32 :: nat)" by simp
  with True have "(of_char (sql_lower_char c) :: nat) = of_char c + 32"
    by (simp add: sql_lower_char_def Let_def)
  with True show ?thesis by simp
next
  case False
  then show ?thesis by (simp add: sql_lower_char_def Let_def)
qed

lemma sql_lower_char_percent: "sql_lower_char c = CHR ''%'' \<longleftrightarrow> c = CHR ''%''"
proof
  assume e: "sql_lower_char c = CHR ''%''"
  with sql_lower_char_cases [of c] show "c = CHR ''%''" by auto
next
  assume "c = CHR ''%''"
  then show "sql_lower_char c = CHR ''%''" by (simp add: sql_lower_char_def)
qed

lemma sql_lower_char_underscore: "sql_lower_char c = CHR ''_'' \<longleftrightarrow> c = CHR ''_''"
proof
  assume e: "sql_lower_char c = CHR ''_''"
  with sql_lower_char_cases [of c] show "c = CHR ''_''" by auto
next
  assume "c = CHR ''_''"
  then show "sql_lower_char c = CHR ''_''" by (simp add: sql_lower_char_def)
qed

lemma plain_sql_lower:
  assumes "plain q"
  shows "plain (sql_lower q)"
proof -
  have "CHR ''%'' \<notin> set (sql_lower q)"
  proof
    assume "CHR ''%'' \<in> set (sql_lower q)"
    then obtain x where "x \<in> set q" and "sql_lower_char x = CHR ''%''"
      unfolding sql_lower_def by auto
    with assms show False by (simp add: sql_lower_char_percent plain_def)
  qed
  moreover have "CHR ''_'' \<notin> set (sql_lower q)"
  proof
    assume "CHR ''_'' \<in> set (sql_lower q)"
    then obtain x where "x \<in> set q" and "sql_lower_char x = CHR ''_''"
      unfolding sql_lower_def by auto
    with assms show False by (simp add: sql_lower_char_underscore plain_def)
  qed
  ultimately show ?thesis by (simp add: plain_def)
qed

lemma sql_lower_idem: "map sql_lower_char (sql_lower s) = sql_lower s"
  by (simp add: sql_lower_def sql_lower_char_idem)

lemma piece_of_lowered:
  assumes "sql_lower t = a @ mid @ b"
  shows "map sql_lower_char mid = mid"
proof -
  from assms obtain t1 t2 where "t = t1 @ t2" "a = map sql_lower_char t1"
    and r: "mid @ b = map sql_lower_char t2"
    unfolding sql_lower_def by (auto simp: map_eq_append_conv)
  from r obtain t3 t4 where "mid = map sql_lower_char t3"
    by (auto simp: append_eq_map_conv)
  then show ?thesis by (simp add: sql_lower_char_idem)
qed

lemma like_lowered_contains:
  assumes "plain q"
  shows "like (''%'' @ sql_lower q @ ''%'') (sql_lower t) \<longleftrightarrow> contains_nocase q t"
proof -
  have "like (''%'' @ sql_lower q @ ''%'') (sql_lower t) \<longleftrightarrow>
      (\<exists>a mid b. sql_lower t = a @ mid @ b
         \<and> map sql_lower_char mid = map sql_lower_char (sql_lower q))"
    using plain_sql_lower [OF assms] by (rule like_contains)
  also have "\<dots> \<longleftrightarrow> (\<exists>a b. sql_lower t = a @ sql_lower q @ b)"
  proof
    assume "\<exists>a mid b. sql_lower t = a @ mid @ b
         \<and> map sql_lower_char mid = map sql_lower_char (sql_lower q)"
    then obtain a mid b where e: "sql_lower t = a @ mid @ b"
      and m: "map sql_lower_char mid = map sql_lower_char (sql_lower q)" by blast
    from e have "map sql_lower_char mid = mid" by (rule piece_of_lowered)
    with m have "mid = sql_lower q" by (simp add: sql_lower_idem)
    with e show "\<exists>a b. sql_lower t = a @ sql_lower q @ b" by blast
  next
    assume "\<exists>a b. sql_lower t = a @ sql_lower q @ b"
    then show "\<exists>a mid b. sql_lower t = a @ mid @ b
         \<and> map sql_lower_char mid = map sql_lower_char (sql_lower q)" by blast
  qed
  also have "\<dots> \<longleftrightarrow> contains_nocase q t"
    by (simp add: contains_nocase_def sublist_def)
  finally show ?thesis .
qed

lemma c_string_whole: "CHR 0x00 \<notin> set s \<Longrightarrow> c_string s = s"
  by (simp add: c_string_def takeWhile_eq_all_conv) metis

lemma sql_lower_char_nul: "sql_lower_char c = CHR 0x00 \<longleftrightarrow> c = CHR 0x00"
proof
  assume e: "sql_lower_char c = CHR 0x00"
  with sql_lower_char_cases [of c] show "c = CHR 0x00" by auto
next
  assume "c = CHR 0x00"
  then show "sql_lower_char c = CHR 0x00" by (simp add: sql_lower_char_def)
qed

lemma c_string_sql_lower:
  assumes "CHR 0x00 \<notin> set s"
  shows "c_string (sql_lower s) = sql_lower s"
proof -
  have "CHR 0x00 \<notin> set (sql_lower s)"
  proof
    assume "CHR 0x00 \<in> set (sql_lower s)"
    then obtain x where "x \<in> set s" and "sql_lower_char x = CHR 0x00"
      unfolding sql_lower_def by auto
    with assms show False by (simp add: sql_lower_char_nul)
  qed
  then show ?thesis by (rule c_string_whole)
qed

lemma sql_like_lowered_contains:
  assumes "plain q" and "CHR 0x00 \<notin> set q" and "CHR 0x00 \<notin> set t"
  shows "sql_like (''%'' @ sql_lower q @ ''%'') (sql_lower t) \<longleftrightarrow> contains_nocase q t"
proof -
  have "CHR 0x00 \<notin> set (''%'' @ sql_lower q @ ''%'')"
    using c_string_sql_lower [OF assms(2)]
    by (auto simp: c_string_def takeWhile_eq_all_conv)
  then have "c_string (''%'' @ sql_lower q @ ''%'') = ''%'' @ sql_lower q @ ''%''"
    by (rule c_string_whole)
  with c_string_sql_lower [OF assms(3)] like_lowered_contains [OF assms(1), of t]
  show ?thesis by (simp add: sql_like_def)
qed

lemma like_matches_contains:
  assumes "plain q" and "\<forall>c \<in> set q. py_lower_char c = sql_lower_char c"
    and "CHR 0x00 \<notin> set q" and "CHR 0x00 \<notin> set (title n)" and "CHR 0x00 \<notin> set (body n)"
  shows "like_matches (''%'' @ py_lower q @ ''%'') n
           \<longleftrightarrow> contains_nocase q (title n) \<or> contains_nocase q (body n)"
proof -
  from assms(2) have "py_lower q = sql_lower q" by (simp add: py_lower_def sql_lower_def)
  then show ?thesis
    unfolding like_matches_def
    by (simp only: sql_like_lowered_contains [OF assms(1,3,4)]
          sql_like_lowered_contains [OF assms(1,3,5)])
qed

text \<open>
  What \<open>search\<close> does with a query that it handles as the specification says. For a query
  that is not all white space, has no \<open>%\<close>, no \<open>_\<close> and no NUL, has only characters that
  Python's \<open>lower\<close> and SQLite's treat alike, and is short enough for a LIKE pattern, on a
  store whose titles and bodies have no NUL: \<open>search\<close> returns the id and the snippet
  \<open>title\<close>, line break, \<open>body\<close> of rows that are newest first and are the most recently
  updated of the notes containing the query in title or body (letters A to Z without
  regard to case), as many as the limit lets through.
\<close>

lemma search_plain_query:
  assumes "\<not> (\<forall>c \<in> set q. isspace c)" and "plain q"
    and "\<forall>c \<in> set q. py_lower_char c = sql_lower_char c"
    and "CHR 0x00 \<notin> set q"
    and "\<forall>n \<in> set (rows st). CHR 0x00 \<notin> set (title n) \<and> CHR 0x00 \<notin> set (body n)"
    and "int (length (utf8_encode (''%'' @ py_lower q @ ''%''))) \<le> like_pattern_limit"
  shows "\<exists>ns. search_rows q lim st = Inr ns
    \<and> search q lim st = Inr (map (\<lambda>n. (note_id n, title n @ [CHR 0x0A] @ body n)) ns)
    \<and> newest_first ns
    \<and> most_recent_of ns (notes_containing q st)
    \<and> length ns = limited_length lim (length (notes_containing q st))"
proof -
  from assms(1) have "strip q \<noteq> []" by (simp add: strip_empty_iff)
  with assms(6) have r: "search_rows q lim st =
      Inr (sql_limit lim (order_by_updated_desc (filter (like_matches (''%'' @ py_lower q @ ''%'')) (rows st))))"
    by (simp add: search_rows_def Let_def)
  have "filter (like_matches (''%'' @ py_lower q @ ''%'')) (rows st) = notes_containing q st"
    unfolding notes_containing_def
    using like_matches_contains [OF assms(2,3,4)] assms(5) by (intro filter_cong refl) blast
  with r have r': "search_rows q lim st = Inr (sql_limit lim (order_by_updated_desc (notes_containing q st)))"
    by simp
  then have s: "search q lim st = Inr (map (\<lambda>n. (note_id n, title n @ [CHR 0x0A] @ body n))
      (sql_limit lim (order_by_updated_desc (notes_containing q st))))"
    by (simp add: search_def snip_def)
  from select_ordered_limited [of lim "notes_containing q st"] r' s show ?thesis by blast
qed

text \<open>
  Where \<open>search\<close> leaves that description: LIKE stops reading a title at its NUL character,
  and a query of 49999 letters makes a pattern of 50001 bytes, which SQLite refuses.
\<close>

lemma search_stops_at_nul:
  "search ''bc'' 10 example_nul_store = Inr []"
  "map note_id (notes_containing ''bc'' example_nul_store) = [1]"
  by code_simp+

lemma utf8_encode_letters: "length (utf8_encode (replicate k CHR ''a'')) = k"
  by (induction k) (simp_all add: utf8_encode_def utf8_char_def)

lemma search_long_query_raises:
  "search (replicate 49999 CHR ''a'') 10 example_two_notes = Inl OperationalError"
proof -
  let ?q = "replicate 49999 CHR ''a''"
  have "CHR ''a'' \<in> set ?q" by simp
  moreover have "\<not> isspace CHR ''a''" by (simp add: isspace_def)
  ultimately have "\<not> (\<forall>c \<in> set ?q. isspace c)" by blast
  then have ne: "strip ?q \<noteq> []" by (simp add: strip_empty_iff)
  have low: "py_lower ?q = ?q"
    by (simp add: py_lower_def py_lower_char_def)
  have "utf8_encode (''%'' @ ?q @ ''%'') = utf8_char CHR ''%'' @ utf8_encode ?q @ utf8_char CHR ''%''"
    by (simp add: utf8_encode_def)
  then have "length (utf8_encode (''%'' @ ?q @ ''%'')) = 50001"
    by (simp add: utf8_encode_letters utf8_char_def)
  then have long: "like_pattern_limit < int (length (utf8_encode (''%'' @ py_lower ?q @ ''%'')))"
    by (simp add: low like_pattern_limit_def)
  have rows: "rows example_two_notes \<noteq> []" by (simp add: example_two_notes_eq)
  from ne long rows have "search_rows ?q 10 example_two_notes = Inl OperationalError"
    by (simp add: search_rows_def Let_def)
  then show ?thesis by (simp add: search_def)
qed

text \<open>
  C4. The claim says that for every query that is not all white space \<open>search\<close> returns
  exactly the notes in which the query appears, without regard to case, as a literal
  substring of title or body. The code does not do that: it puts the query into a LIKE
  pattern as it is, so that the query \<open>a_c\<close> finds the note titled \<open>abc\<close>, in which it is
  not a substring; and it lowers the query with Python's \<open>lower\<close> and the texts with
  SQLite's, which leaves a capital letter outside ASCII alone, so that the query that is
  the title of note 2 does not find it.
\<close>

theorem search_wildcard_and_case:
  "search ''a_c'' 10 example_like_store = Inr [(1, ''abc'' @ [CHR 0x0A] @ ''x'')]
   \<and> notes_containing ''a_c'' example_like_store = []
   \<and> search [CHR 0xC9] 10 example_like_store = Inr []
   \<and> map note_id (notes_containing [CHR 0xC9] example_like_store) = [2]"
proof -
  have a: "search ''a_c'' 10 example_like_store = Inr [(1, ''abc'' @ [CHR 0x0A] @ ''x'')]"
    by code_simp
  have b: "notes_containing ''a_c'' example_like_store = []"
    by code_simp
  have c: "search [CHR 0xC9] 10 example_like_store = Inr []"
    by code_simp
  have d: "map note_id (notes_containing [CHR 0xC9] example_like_store) = [2]"
    by code_simp
  from a b c d show ?thesis by blast
qed

section \<open>Export\<close>

































end
